theory Spec2Isabelle
  imports Main "HOL-Library.Word"
begin

unbundle bit_operations_syntax

section \<open>Frame codec (websocket.ts: parseWebSocketFrames, createWebSocketFrame)\<close>

text \<open>
  A Node \<open>Buffer\<close> is a list of bytes. A JavaScript string is modelled as \<open>string\<close>;
  the codec uses strings only through Node's two UTF-8 conversions,
  \<open>Buffer.from(s, "utf8")\<close> and \<open>buf.toString("utf8")\<close>, which are not code of this
  repository and are passed to the codec as the function parameters \<open>fromUtf8\<close> and
  \<open>toUtf8String\<close>.

  Offsets and lengths are JavaScript numbers holding non-negative integers; they are
  modelled as \<open>nat\<close>. Every offset the decoder computes is compared with the length of
  the buffer before it is used, and a buffer is shorter than \<open>2 ^ 53\<close> bytes, so the
  arithmetic on them is exact; a 64-bit length field of \<open>2 ^ 53\<close> or more exceeds every
  buffer length before and after \<open>Number(...)\<close> rounds it.
\<close>

type_synonym byte = "8 word"
type_synonym buffer = "byte list"

datatype js_error = RangeError | SyntaxError | TypeError string | Error string

text \<open>\<open>buf.subarray(start, end)\<close> for \<open>start \<le> end\<close>; Node clamps both to the length.\<close>

definition subarray :: "buffer \<Rightarrow> nat \<Rightarrow> nat \<Rightarrow> buffer" where
  "subarray buf start end = take (end - start) (drop start buf)"

text \<open>Big-endian reads and writes: \<open>readUInt16BE\<close>, \<open>readBigUInt64BE\<close>, \<open>writeUInt16BE\<close>,
  \<open>writeBigUInt64BE\<close>. The decoder calls a read only after checking that its bytes are
  inside the buffer; \<open>writeBigUInt64BE\<close> throws a RangeError for a value of \<open>2 ^ 64\<close> or more.\<close>

definition be_value :: "buffer \<Rightarrow> nat" where
  "be_value bs = foldl (\<lambda>acc b. acc * 256 + unat b) 0 bs"

definition readUInt16BE :: "buffer \<Rightarrow> nat \<Rightarrow> nat" where
  "readUInt16BE buf off = be_value (subarray buf off (off + 2))"

definition readBigUInt64BE :: "buffer \<Rightarrow> nat \<Rightarrow> nat" where
  "readBigUInt64BE buf off = be_value (subarray buf off (off + 8))"

fun be_bytes :: "nat \<Rightarrow> nat \<Rightarrow> buffer" where
  "be_bytes 0 v = []"
| "be_bytes (Suc n) v = be_bytes n (v div 256) @ [word_of_nat (v mod 256)]"

definition writeUInt16BE :: "nat \<Rightarrow> buffer" where
  "writeUInt16BE v = be_bytes 2 v"

definition writeBigUInt64BE :: "nat \<Rightarrow> js_error + buffer" where
  "writeBigUInt64BE v = (if v < 2 ^ 64 then Inr (be_bytes 8 v) else Inl RangeError)"

text \<open>The header of the frame at \<open>offset\<close>, as the body of the decoding loop reads it
  (websocket.ts lines 180 to 210). \<open>None\<close> is the loop's \<open>break\<close>: the header is not
  complete yet.\<close>

record frame_header =
  opcode :: byte
  masked :: bool
  maskKey :: "buffer option"
  payloadOffset :: nat
  payloadLength :: nat

text \<open>\<open>extended_length\<close> is the step "Handle extended payload length": from the 7-bit
  length and the offset after the two header bytes to the payload length and the
  offset after the length field. \<open>Number(bigPayloadLength)\<close> is the integer read.\<close>

definition extended_length :: "buffer \<Rightarrow> nat \<Rightarrow> nat \<Rightarrow> (nat \<times> nat) option" where
  "extended_length fullBuffer len off =
     (if len = 126 then
        (if off + 2 > length fullBuffer then None
         else Some (readUInt16BE fullBuffer off, off + 2))
      else if len = 127 then
        (if off + 8 > length fullBuffer then None
         else Some (readBigUInt64BE fullBuffer off, off + 8))
      else Some (len, off))"

definition read_header :: "buffer \<Rightarrow> nat \<Rightarrow> frame_header option" where
  "read_header fullBuffer offset =
     (if offset + 2 > length fullBuffer then None
      else
        let firstByte = fullBuffer ! offset;
            secondByte = fullBuffer ! (offset + 1);
            opc = firstByte AND 0x0f;
            msk = (secondByte AND 0x80 = 0x80)
        in case extended_length fullBuffer (unat (secondByte AND 0x7f)) (offset + 2) of
             None \<Rightarrow> None
           | Some (len, off) \<Rightarrow>
               if msk then
                 (if off + 4 > length fullBuffer then None
                  else Some \<lparr>opcode = opc, masked = msk,
                             maskKey = Some (subarray fullBuffer off (off + 4)),
                             payloadOffset = off + 4, payloadLength = len\<rparr>)
               else Some \<lparr>opcode = opc, masked = msk, maskKey = None,
                          payloadOffset = off, payloadLength = len\<rparr>)"

text \<open>Unmasking: \<open>unmaskedPayload[i] = payload[i] ^ maskKey[i % 4]\<close>. \<open>payload_bytes\<close> are the
  bytes that a text frame's \<open>payload.toString("utf8")\<close> is applied to.\<close>

definition unmask :: "buffer \<Rightarrow> buffer \<Rightarrow> buffer" where
  "unmask key payload = map (\<lambda>i. (payload ! i) XOR (key ! (i mod 4))) [0..<length payload]"

definition payload_bytes :: "buffer \<Rightarrow> frame_header \<Rightarrow> buffer" where
  "payload_bytes fullBuffer h =
     (let payload = subarray fullBuffer (payloadOffset h) (payloadOffset h + payloadLength h)
      in case maskKey h of
           Some key \<Rightarrow> if masked h then unmask key payload else payload
         | None \<Rightarrow> payload)"

text \<open>The decoding loop: the cursor \<open>offset\<close> and the list \<open>messages\<close> are its two
  variables; the result is their value when the loop ends.\<close>

function parse_loop ::
  "(buffer \<Rightarrow> string) \<Rightarrow> buffer \<Rightarrow> nat \<Rightarrow> string list \<Rightarrow> string list \<times> nat" where
  "parse_loop toUtf8String fullBuffer offset messages =
     (if offset < length fullBuffer then
        (case read_header fullBuffer offset of
           None \<Rightarrow> (messages, offset)
         | Some h \<Rightarrow>
             if payloadOffset h + payloadLength h > length fullBuffer then (messages, offset)
             else parse_loop toUtf8String fullBuffer (payloadOffset h + payloadLength h)
                    (if opcode h = 0x1
                     then messages @ [toUtf8String (payload_bytes fullBuffer h)]
                     else messages))
      else (messages, offset))"
  by pat_completeness auto
termination
  by (relation "measure (\<lambda>(f, buf, off, msgs). length buf - off)")
     (auto simp: read_header_def extended_length_def Let_def
           split: if_splits option.splits prod.splits)

declare parse_loop.simps [simp del]

record parse_result =
  parsed :: "string list"
  remaining :: buffer

definition parseWebSocketFrames ::
  "(buffer \<Rightarrow> string) \<Rightarrow> buffer \<Rightarrow> buffer \<Rightarrow> parse_result" where
  "parseWebSocketFrames toUtf8String data existingBuffer =
     (let fullBuffer = existingBuffer @ data;
          (messages, offset) = parse_loop toUtf8String fullBuffer 0 []
      in \<lparr>parsed = messages, remaining = drop offset fullBuffer\<rparr>)"

text \<open>Encoding. \<open>frame[1] = payloadLength\<close> stores a number below 126 in one byte.\<close>

definition createWebSocketFrame :: "(string \<Rightarrow> buffer) \<Rightarrow> string \<Rightarrow> js_error + buffer" where
  "createWebSocketFrame fromUtf8 data =
     (let payload = fromUtf8 data;
          n = length payload
      in if n < 126 then
           Inr ([0x81, word_of_nat n] @ payload)
         else if n < 65536 then
           Inr ([0x81, 126] @ writeUInt16BE n @ payload)
         else
           (case writeBigUInt64BE n of
              Inl e \<Rightarrow> Inl e
            | Inr len8 \<Rightarrow> Inr ([0x81, 127] @ len8 @ payload)))"

section \<open>Server state, handshake and registry (websocket.ts: WebSocketServer)\<close>

text \<open>
  The class modelled is the \<open>WebSocketServer\<close> that declares \<open>MAX_CONNECTIONS\<close>,
  \<open>MAX_BUFFER_SIZE\<close>, \<open>MAX_MESSAGE_SIZE\<close> and the health check (the revision the
  protocol documentation describes). The repository also holds an earlier revision of
  the same file without these limits; its codec functions are the same text.

  A socket object is identified by a number. The state holds what the server object
  holds (\<open>connections\<close>, a JavaScript \<open>Set\<close> kept as a duplicate-free list in insertion
  order, and \<open>authToken\<close>), the variable \<open>buffer\<close> of each connection's data handler,
  the two flags of each socket that the server reads, and the sequence of calls the
  server has made on sockets and on its two callbacks.
\<close>

type_synonym socket = nat

datatype chunk = Text string | Bytes buffer

datatype json =
    JNull | JBool bool | JNum int | JStr string | JArr "json list" | JObj "(string \<times> json) list"

record rpc_error =
  e_code :: int
  e_message :: string

record mcp_message =
  m_jsonrpc :: string
  m_id :: "json option"
  m_method :: "string option"
  m_params :: "json option"
  m_result :: "json option"
  m_error :: "rpc_error option"

datatype effect =
    SocketEnd socket string
  | SocketWrite socket chunk
  | SocketDestroy socket
  | OnMessage json socket
  | OnConnection socket

record world =
  connections :: "socket list"
  authToken :: string
  buffers :: "socket \<Rightarrow> buffer"
  destroyed :: "socket \<Rightarrow> bool"
  writable :: "socket \<Rightarrow> bool"
  effects :: "effect list"

text \<open>The functions of the Node runtime that the server calls.\<close>

record node_runtime =
  fromUtf8 :: "string \<Rightarrow> buffer"
  toUtf8String :: "buffer \<Rightarrow> string"
  JSON_parse :: "string \<Rightarrow> json option"
  JSON_stringify :: "mcp_message \<Rightarrow> string option"
  sha1_base64 :: "string \<Rightarrow> string"

definition MAX_CONNECTIONS :: nat where "MAX_CONNECTIONS = 10"
definition MAX_BUFFER_SIZE :: nat where "MAX_BUFFER_SIZE = 1024 * 1024"
definition MAX_MESSAGE_SIZE :: nat where "MAX_MESSAGE_SIZE = 10 * 1024 * 1024"

definition initial_world :: world where
  "initial_world =
     \<lparr>connections = [], authToken = [], buffers = (\<lambda>_. []),
      destroyed = (\<lambda>_. False), writable = (\<lambda>_. True), effects = []\<rparr>"

text \<open>\<open>Set.add\<close>, \<open>Set.delete\<close> and the calls on a socket. After \<open>socket.end\<close> the socket
  is no longer writable; after \<open>socket.destroy\<close> it is destroyed and not writable.\<close>

definition set_add :: "socket \<Rightarrow> socket list \<Rightarrow> socket list" where
  "set_add s xs = (if s \<in> set xs then xs else xs @ [s])"

definition set_delete :: "socket \<Rightarrow> socket list \<Rightarrow> socket list" where
  "set_delete s xs = filter (\<lambda>x. x \<noteq> s) xs"

definition socket_end :: "socket \<Rightarrow> string \<Rightarrow> world \<Rightarrow> world" where
  "socket_end s data w =
     w\<lparr>writable := (writable w)(s := False), effects := effects w @ [SocketEnd s data]\<rparr>"

definition socket_write :: "socket \<Rightarrow> chunk \<Rightarrow> world \<Rightarrow> world" where
  "socket_write s data w = w\<lparr>effects := effects w @ [SocketWrite s data]\<rparr>"

definition socket_destroy :: "socket \<Rightarrow> world \<Rightarrow> world" where
  "socket_destroy s w =
     w\<lparr>destroyed := (destroyed w)(s := True), writable := (writable w)(s := False),
       effects := effects w @ [SocketDestroy s]\<rparr>"

definition setAuthToken :: "string \<Rightarrow> world \<Rightarrow> world" where
  "setAuthToken token w = w\<lparr>authToken := token\<rparr>"

definition getConnectionCount :: "world \<Rightarrow> nat" where
  "getConnectionCount w = length (connections w)"

definition cleanupConnection :: "socket \<Rightarrow> world \<Rightarrow> world" where
  "cleanupConnection s w =
     (let w1 = w\<lparr>connections := set_delete s (connections w)\<rparr>
      in if \<not> destroyed w1 s then socket_destroy s w1 else w1)"

text \<open>The upgrade request (types.ts: \<open>UpgradeRequest\<close>): a header is absent, one string,
  or a list of strings.\<close>

datatype header_value = Single string | Multiple "string list"

record UpgradeRequest =
  headers :: "string \<Rightarrow> header_value option"
  url :: "string option"

definition crlf :: string where
  "crlf = [CHR 0x0D, CHR 0x0A]"

definition reply_400 :: string where
  "reply_400 = ''HTTP/1.1 400 Bad Request'' @ crlf @ crlf"

definition reply_401_missing :: string where
  "reply_401_missing =
     ''HTTP/1.1 401 Unauthorized'' @ crlf @ ''Content-Type: text/plain'' @ crlf @ crlf @
     ''Missing authentication header: x-claude-code-ide-authorization''"

definition reply_401_invalid :: string where
  "reply_401_invalid =
     ''HTTP/1.1 401 Unauthorized'' @ crlf @ ''Content-Type: text/plain'' @ crlf @ crlf @
     ''Invalid authentication token''"

definition reply_503 :: string where
  "reply_503 =
     ''HTTP/1.1 503 Service Unavailable'' @ crlf @ ''Content-Type: text/plain'' @ crlf @ crlf @
     ''Connection limit reached''"

definition responseHeaders :: "string \<Rightarrow> string" where
  "responseHeaders acceptKey =
     ''HTTP/1.1 101 Switching Protocols'' @ crlf @
     ''Upgrade: websocket'' @ crlf @
     ''Connection: Upgrade'' @ crlf @
     ''Sec-WebSocket-Accept: '' @ acceptKey @ crlf @
     ''Sec-WebSocket-Protocol: mcp'' @ crlf @ crlf"

definition websocket_guid :: string where
  "websocket_guid = ''258EAFA5-E914-47DA-95CA-C5AB0DC85B11''"

text \<open>\<open>const key = Array.isArray(keyHeader) ? keyHeader[0] : keyHeader\<close>.\<close>

definition key_of :: "header_value option \<Rightarrow> string option" where
  "key_of keyHeader =
     (case keyHeader of
        None \<Rightarrow> None
      | Some (Single k) \<Rightarrow> Some k
      | Some (Multiple ks) \<Rightarrow> (case ks of [] \<Rightarrow> None | k # _ \<Rightarrow> Some k))"

text \<open>\<open>!authHeader\<close>: the header is undefined or the empty string; an array is truthy.\<close>

definition header_falsy :: "header_value option \<Rightarrow> bool" where
  "header_falsy h = (h = None \<or> h = Some (Single []))"

definition handleConnection :: "socket \<Rightarrow> world \<Rightarrow> world" where
  "handleConnection s w =
     (let w1 = w\<lparr>connections := set_add s (connections w), buffers := (buffers w)(s := [])\<rparr>
      in w1\<lparr>effects := effects w1 @ [OnConnection s]\<rparr>)"

definition handleWebSocketUpgrade ::
  "node_runtime \<Rightarrow> UpgradeRequest \<Rightarrow> socket \<Rightarrow> world \<Rightarrow> world" where
  "handleWebSocketUpgrade rt request s w =
     (case key_of (headers request ''sec-websocket-key'') of
        None \<Rightarrow> socket_end s reply_400 w
      | Some key \<Rightarrow>
          if key = [] then socket_end s reply_400 w
          else
            let authHeader = headers request ''x-claude-code-ide-authorization''
            in if header_falsy authHeader then socket_end s reply_401_missing w
               else if authHeader \<noteq> Some (Single (authToken w)) then
                 socket_end s reply_401_invalid w
               else if length (connections w) \<ge> MAX_CONNECTIONS then
                 socket_end s reply_503 w
               else
                 handleConnection s
                   (socket_write s
                      (Text (responseHeaders (sha1_base64 rt (key @ websocket_guid)))) w))"

definition response_too_large :: "mcp_message \<Rightarrow> mcp_message" where
  "response_too_large message =
     \<lparr>m_jsonrpc = ''2.0'', m_id = m_id message, m_method = None, m_params = None,
      m_result = None,
      m_error = Some \<lparr>e_code = - 32600, e_message = ''Response too large''\<rparr>\<rparr>"

definition message_too_large :: mcp_message where
  "message_too_large =
     \<lparr>m_jsonrpc = ''2.0'', m_id = None, m_method = None, m_params = None,
      m_result = None,
      m_error = Some \<lparr>e_code = - 32600, e_message = ''Message too large''\<rparr>\<rparr>"

text \<open>\<open>sendMessage\<close>. \<open>write_frame\<close> is its pair of statements
  \<open>const frame = this.createWebSocketFrame(payload); socket.write(frame)\<close>.
  \<open>JSON.stringify\<close> returning \<open>None\<close>, and a frame that cannot be built, are the exceptions
  that the \<open>catch\<close> turns into \<open>cleanupConnection\<close>; \<open>socket.write\<close> itself is taken not
  to throw.\<close>

definition write_frame :: "node_runtime \<Rightarrow> socket \<Rightarrow> string \<Rightarrow> world \<Rightarrow> world" where
  "write_frame rt s payload w =
     (case createWebSocketFrame (fromUtf8 rt) payload of
        Inl e \<Rightarrow> cleanupConnection s w
      | Inr frame \<Rightarrow> socket_write s (Bytes frame) w)"

definition sendMessage :: "node_runtime \<Rightarrow> socket \<Rightarrow> mcp_message \<Rightarrow> world \<Rightarrow> world" where
  "sendMessage rt s message w =
     (if \<not> destroyed w s \<and> writable w s then
        (case JSON_stringify rt message of
           None \<Rightarrow> cleanupConnection s w
         | Some payload \<Rightarrow>
             if length payload > MAX_MESSAGE_SIZE then
               (case JSON_stringify rt (response_too_large message) of
                  None \<Rightarrow> cleanupConnection s w
                | Some errorPayload \<Rightarrow> write_frame rt s errorPayload w)
             else write_frame rt s payload w)
      else w)"

text \<open>The body of \<open>messages.parsed.forEach\<close> in the data handler: \<open>JSON.parse\<close> returning
  \<open>None\<close> is the SyntaxError that the inner \<open>catch\<close> logs.\<close>

definition handle_message_text :: "node_runtime \<Rightarrow> socket \<Rightarrow> string \<Rightarrow> world \<Rightarrow> world" where
  "handle_message_text rt s messageText w =
     (if length messageText > MAX_MESSAGE_SIZE then sendMessage rt s message_too_large w
      else
        (case JSON_parse rt messageText of
           None \<Rightarrow> w
         | Some message \<Rightarrow> w\<lparr>effects := effects w @ [OnMessage message s]\<rparr>))"

text \<open>The handler of the socket's \<open>data\<close> event.\<close>

definition on_data :: "node_runtime \<Rightarrow> socket \<Rightarrow> buffer \<Rightarrow> world \<Rightarrow> world" where
  "on_data rt s data w =
     (if length (buffers w s) + length data > MAX_BUFFER_SIZE then cleanupConnection s w
      else
        let messages = parseWebSocketFrames (toUtf8String rt) data (buffers w s);
            w1 = w\<lparr>buffers := (buffers w)(s := remaining messages)\<rparr>
        in fold (handle_message_text rt s) (parsed messages) w1)"

text \<open>The handlers of the socket's \<open>close\<close> and \<open>error\<close> events, \<open>broadcast\<close>, the body of
  the health-check timer, and \<open>stop\<close>. \<open>broadcast\<close> and \<open>stop\<close> iterate over the connections
  as they are when the call starts and read the flags of a socket when its turn
  comes.\<close>

definition on_close :: "socket \<Rightarrow> world \<Rightarrow> world" where
  "on_close s w = w\<lparr>connections := set_delete s (connections w)\<rparr>"

definition on_error :: "socket \<Rightarrow> world \<Rightarrow> world" where
  "on_error s w = cleanupConnection s w"

definition broadcast :: "node_runtime \<Rightarrow> mcp_message \<Rightarrow> world \<Rightarrow> world" where
  "broadcast rt message w =
     fold (\<lambda>s w'. if \<not> destroyed w' s \<and> writable w' s then sendMessage rt s message w'
                   else cleanupConnection s w')
          (connections w) w"

definition healthCheck :: "world \<Rightarrow> world" where
  "healthCheck w =
     w\<lparr>connections := filter (\<lambda>s. \<not> (destroyed w s \<or> \<not> writable w s)) (connections w)\<rparr>"

definition stop :: "world \<Rightarrow> world" where
  "stop w = (fold cleanupConnection (connections w) w)\<lparr>connections := []\<rparr>"

text \<open>Events: the calls into the server, and \<open>Transport\<close>, a change of a socket's flags
  that the server is not told about.\<close>

datatype event =
    SetAuthToken string
  | Upgrade UpgradeRequest socket
  | Data socket buffer
  | Close socket
  | SocketError socket
  | Send socket mcp_message
  | Broadcast mcp_message
  | HealthCheck
  | Stop
  | Transport socket bool bool

fun step :: "node_runtime \<Rightarrow> event \<Rightarrow> world \<Rightarrow> world" where
  "step rt (SetAuthToken token) w = setAuthToken token w"
| "step rt (Upgrade request s) w = handleWebSocketUpgrade rt request s w"
| "step rt (Data s data) w = on_data rt s data w"
| "step rt (Close s) w = on_close s w"
| "step rt (SocketError s) w = on_error s w"
| "step rt (Send s message) w = sendMessage rt s message w"
| "step rt (Broadcast message) w = broadcast rt message w"
| "step rt HealthCheck w = healthCheck w"
| "step rt Stop w = stop w"
| "step rt (Transport s d wr) w =
     w\<lparr>destroyed := (destroyed w)(s := d), writable := (writable w)(s := wr)\<rparr>"

definition run :: "node_runtime \<Rightarrow> event list \<Rightarrow> world \<Rightarrow> world" where
  "run rt evs w = fold (step rt) evs w"

text \<open>The calls made between two states.\<close>

definition new_effects :: "world \<Rightarrow> world \<Rightarrow> effect list" where
  "new_effects w w' = drop (length (effects w)) (effects w')"

section \<open>Message dispatcher (mcp-handler.ts: MCPHandler)\<close>

text \<open>
  \<open>handleMessage\<close> receives whatever \<open>JSON.parse\<close> returned (\<open>message: any\<close>). Reading a
  property of \<open>null\<close> throws a TypeError; reading \<open>method\<close>, \<open>id\<close>, \<open>params\<close> or \<open>path\<close> of
  a number, string, boolean or array gives \<open>undefined\<close> (\<open>None\<close>); an object is the list of
  its properties. JSON numbers are modelled as integers; the dispatcher only tests
  them for truthiness and copies them.
\<close>

definition property :: "json \<Rightarrow> string \<Rightarrow> json option" where
  "property v name = (case v of JObj kvs \<Rightarrow> map_of kvs name | _ \<Rightarrow> None)"

fun truthy :: "json option \<Rightarrow> bool" where
  "truthy None = False"
| "truthy (Some JNull) = False"
| "truthy (Some (JBool b)) = b"
| "truthy (Some (JNum n)) = (n \<noteq> 0)"
| "truthy (Some (JStr s)) = (s \<noteq> [])"
| "truthy (Some (JArr xs)) = True"
| "truthy (Some (JObj kvs)) = True"

text \<open>
  A template literal converts the value it embeds to a string. For a value that
  \<open>JSON.parse\<close> returned the conversion throws a TypeError exactly when it reaches an
  object with a property of its own named \<open>toString\<close> (the property is not callable, and
  the inherited \<open>valueOf\<close> returns the object itself); an array is converted by joining
  its elements, where \<open>null\<close> elements count as empty text. The text that a successful
  conversion produces is left to the field \<open>template_text\<close> of the host record below.
\<close>

fun conversion_throws :: "json \<Rightarrow> bool" where
  "conversion_throws (JObj kvs) = (map_of kvs ''toString'' \<noteq> None)"
| "conversion_throws (JArr xs) = list_ex (\<lambda>x. x \<noteq> JNull \<and> conversion_throws x) xs"
| "conversion_throws v = False"

definition conversion_error :: js_error where
  "conversion_error = TypeError ''Cannot convert object to primitive value''"

text \<open>The host application, as far as the two handlers use it:
  \<open>app.vault.getAbstractFileByPath\<close> (\<open>None\<close> is \<open>null\<close>), \<open>app.vault.read\<close> (the content, or
  the message of the error it rejects with),
  \<open>app.workspace.getActiveViewOfType(MarkdownView)\<close> with the editor's selection and
  cursor, and the conversion of a value to text inside a template literal.\<close>

datatype abstract_file = TFile "string + string" | TFolder

record editor_view =
  getSelection :: string
  cursor_line :: int
  cursor_ch :: int

record obsidian_app =
  getAbstractFileByPath :: "json \<Rightarrow> abstract_file option"
  getActiveViewOfType :: "editor_view option"
  template_text :: "json \<Rightarrow> string"

definition response :: "json option \<Rightarrow> json \<Rightarrow> mcp_message" where
  "response ident res =
     \<lparr>m_jsonrpc = ''2.0'', m_id = ident, m_method = None, m_params = None,
      m_result = Some res, m_error = None\<rparr>"

definition error_response :: "json option \<Rightarrow> int \<Rightarrow> string \<Rightarrow> mcp_message" where
  "error_response ident c text =
     \<lparr>m_jsonrpc = ''2.0'', m_id = ident, m_method = None, m_params = None,
      m_result = None, m_error = Some \<lparr>e_code = c, e_message = text\<rparr>\<rparr>"

definition initialize_result :: json where
  "initialize_result =
     JObj [(''protocolVersion'', JStr ''2024-11-05''),
           (''capabilities'',
              JObj [(''resources'', JObj []), (''tools'', JObj []), (''prompts'', JObj [])]),
           (''serverInfo'', JObj [(''name'', JStr ''Obsidian''), (''version'', JStr ''1.0.0'')])]"

text \<open>The two handlers return the calls of \<open>sendMessage\<close> they make, or the error they
  throw.\<close>

definition handleFileRead ::
  "obsidian_app \<Rightarrow> json \<Rightarrow> socket \<Rightarrow> js_error + (socket \<times> mcp_message) list" where
  "handleFileRead app message s =
     (let filePath = (case property message ''params'' of
                        None \<Rightarrow> None
                      | Some JNull \<Rightarrow> None
                      | Some params \<Rightarrow> property params ''path'')
      in if \<not> truthy filePath then Inl (Error ''File path is required'')
         else
           (case getAbstractFileByPath app (the filePath) of
              Some (TFile contents) \<Rightarrow>
                (case contents of
                   Inl failure \<Rightarrow> Inl (Error failure)
                 | Inr content \<Rightarrow>
                     Inr [(s, response (property message ''id'') (JObj [(''content'', JStr content)]))])
            | _ \<Rightarrow>
                if conversion_throws (the filePath) then Inl conversion_error
                else Inl (Error (''File not found: '' @ template_text app (the filePath)))))"

definition handleWorkspaceSelection ::
  "obsidian_app \<Rightarrow> json \<Rightarrow> socket \<Rightarrow> js_error + (socket \<times> mcp_message) list" where
  "handleWorkspaceSelection app message s =
     (case getActiveViewOfType app of
        None \<Rightarrow> Inl (Error ''No active markdown view'')
      | Some activeView \<Rightarrow>
          Inr [(s, response (property message ''id'')
                    (JObj [(''selection'', JStr (getSelection activeView)),
                           (''cursor'', JObj [(''line'', JNum (cursor_line activeView)),
                                              (''ch'', JNum (cursor_ch activeView))])]))])"

text \<open>The \<open>try\<close> block of \<open>handleMessage\<close>. Its first statement under \<open>if (message.method)\<close>
  builds the text \<open>Processing method: ${message.method}\<close>, which throws when the method
  cannot be converted.\<close>

definition dispatch ::
  "obsidian_app \<Rightarrow> json \<Rightarrow> socket \<Rightarrow> js_error + (socket \<times> mcp_message) list" where
  "dispatch app message s =
     (if message = JNull then Inl (TypeError ''Cannot read properties of null'')
      else if truthy (property message ''method'') then
        (if conversion_throws (the (property message ''method'')) then Inl conversion_error
         else if property message ''method'' = Some (JStr ''initialize'') then
           Inr [(s, response (property message ''id'') initialize_result)]
         else if property message ''method'' = Some (JStr ''initialized'') then Inr []
         else if property message ''method'' = Some (JStr ''files/read'') then
           handleFileRead app message s
         else if property message ''method'' = Some (JStr ''workspace/selection'') then
           handleWorkspaceSelection app message s
         else if property message ''method'' = Some (JStr ''resources/list'') then
           Inr [(s, response (property message ''id'') (JObj [(''resources'', JArr [])]))]
         else
           Inr [(s, error_response (property message ''id'') (- 32601) ''Method not found'')])
      else Inr [])"

definition error_message :: "js_error \<Rightarrow> string" where
  "error_message e =
     (case e of Error text \<Rightarrow> text | TypeError text \<Rightarrow> text
      | RangeError \<Rightarrow> ''RangeError'' | SyntaxError \<Rightarrow> ''SyntaxError'')"

text \<open>\<open>handleMessage\<close>: \<open>sent\<close> are the calls of \<open>sendMessage\<close> in order; \<open>rejected\<close> is the
  error the returned promise rejects with, which happens when the \<open>catch\<close> block itself
  throws on reading \<open>message.id\<close> of \<open>null\<close>.\<close>

record handled =
  sent :: "(socket \<times> mcp_message) list"
  rejected :: "js_error option"

definition handleMessage :: "obsidian_app \<Rightarrow> json \<Rightarrow> socket \<Rightarrow> handled" where
  "handleMessage app message s =
     (case dispatch app message s of
        Inr calls \<Rightarrow> \<lparr>sent = calls, rejected = None\<rparr>
      | Inl e \<Rightarrow>
          if message = JNull then
            \<lparr>sent = [], rejected = Some (TypeError ''Cannot read properties of null'')\<rparr>
          else if truthy (property message ''id'') then
            \<lparr>sent = [(s, error_response (property message ''id'') (- 32603) (error_message e))],
             rejected = None\<rparr>
          else \<lparr>sent = [], rejected = None\<rparr>)"

section \<open>The earlier revision of the server (src/websocket.ts without resource limits)\<close>

text \<open>
  The copy of websocket.ts that declares no limit constants differs from the class
  above in three places that matter here: the upgrade handler has no connection-limit
  check, the data handler has neither the buffer check nor the message-size check, and
  a failed send only removes the socket from the set. Its upgrade handler and its data
  handler are modelled here, to record what holds of that copy.
\<close>

definition header_text :: "header_value \<Rightarrow> string" where
  "header_text h =
     (case h of Single k \<Rightarrow> k
      | Multiple ks \<Rightarrow> concat (case ks of [] \<Rightarrow> [] | k # rest \<Rightarrow> k # map (\<lambda>x. '','' @ x) rest))"

definition handleWebSocketUpgrade_v1 ::
  "node_runtime \<Rightarrow> UpgradeRequest \<Rightarrow> socket \<Rightarrow> world \<Rightarrow> world" where
  "handleWebSocketUpgrade_v1 rt request s w =
     (let key = headers request ''sec-websocket-key''
      in if header_falsy key then socket_end s reply_400 w
         else
           let authHeader = headers request ''x-claude-code-ide-authorization''
           in if header_falsy authHeader then socket_end s reply_401_missing w
              else if authHeader \<noteq> Some (Single (authToken w)) then
                socket_end s reply_401_invalid w
              else
                handleConnection s
                  (socket_write s
                     (Text (responseHeaders
                        (sha1_base64 rt (header_text (the key) @ websocket_guid)))) w))"

definition on_data_v1 :: "node_runtime \<Rightarrow> socket \<Rightarrow> buffer \<Rightarrow> world \<Rightarrow> world" where
  "on_data_v1 rt s data w =
     (let messages = parseWebSocketFrames (toUtf8String rt) data (buffers w s);
          w1 = w\<lparr>buffers := (buffers w)(s := remaining messages)\<rparr>
      in fold (\<lambda>messageText w'.
                 case JSON_parse rt messageText of
                   None \<Rightarrow> w'
                 | Some message \<Rightarrow> w'\<lparr>effects := effects w' @ [OnMessage message s]\<rparr>)
              (parsed messages) w1)"

section \<open>Vocabulary of the properties\<close>

text \<open>The header that \<open>createWebSocketFrame\<close> writes, as the decoder reads it back: a
  final, unmasked text frame.\<close>

definition text_header :: "nat \<Rightarrow> nat \<Rightarrow> frame_header" where
  "text_header off len =
     \<lparr>opcode = 0x1, masked = False, maskKey = None, payloadOffset = off, payloadLength = len\<rparr>"

text \<open>A region \<open>(start, len, msk)\<close> of a buffer: \<open>len\<close> payload bytes from \<open>start\<close>, preceded
  by their four-byte mask key when \<open>msk\<close> holds. \<open>region_bytes\<close> are the payload bytes of a
  region (unmasked with that key); \<open>regions_between lo rs hi\<close> says that the regions
  \<open>rs\<close>, each with its key, lie one after the other, without overlap, between the
  offsets \<open>lo\<close> and \<open>hi\<close>.\<close>

type_synonym region = "nat \<times> nat \<times> bool"

definition region_bytes :: "buffer \<Rightarrow> region \<Rightarrow> buffer" where
  "region_bytes buf r =
     (case r of (start, len, msk) \<Rightarrow>
        if msk then unmask (subarray buf (start - 4) start) (subarray buf start (start + len))
        else subarray buf start (start + len))"

fun regions_between :: "nat \<Rightarrow> region list \<Rightarrow> nat \<Rightarrow> bool" where
  "regions_between lo [] hi = (lo \<le> hi)"
| "regions_between lo ((start, len, msk) # rs) hi =
     (lo + (if msk then 4 else 0) \<le> start \<and> regions_between (start + len) rs hi)"

text \<open>
  The layout of one frame on the wire, in the words of section 4.1 of the
  specification: a first byte whose low nibble is the opcode; a second byte whose top
  bit is the mask flag and whose low seven bits are the length or one of the escape
  values 126 and 127; after an escape, the length as a big-endian number of two or of
  eight bytes; the four bytes of the masking key when the frame is masked; and the
  payload. \<open>length_form\<close> says which of the three ways of writing the length the frame
  uses (a length may be written in a longer form than it needs); \<open>wire_frame_ok\<close> says
  that the length fits the form and that the key has four bytes.
\<close>

datatype length_form = Len7 | Len16 | Len64

definition length_byte :: "length_form \<Rightarrow> nat \<Rightarrow> byte" where
  "length_byte form n = (case form of Len7 \<Rightarrow> word_of_nat n | Len16 \<Rightarrow> 126 | Len64 \<Rightarrow> 127)"

definition length_field :: "length_form \<Rightarrow> nat \<Rightarrow> buffer" where
  "length_field form n = (case form of Len7 \<Rightarrow> [] | Len16 \<Rightarrow> be_bytes 2 n | Len64 \<Rightarrow> be_bytes 8 n)"

definition key_bytes :: "buffer option \<Rightarrow> buffer" where
  "key_bytes key = (case key of None \<Rightarrow> [] | Some k \<Rightarrow> k)"

definition wire_frame :: "byte \<Rightarrow> length_form \<Rightarrow> buffer option \<Rightarrow> buffer \<Rightarrow> buffer" where
  "wire_frame firstByte form key payload =
     [firstByte, (if key = None then 0 else 0x80) OR length_byte form (length payload)] @
     length_field form (length payload) @
     (case key of None \<Rightarrow> [] | Some k \<Rightarrow> k) @
     payload"

definition wire_frame_ok :: "length_form \<Rightarrow> buffer option \<Rightarrow> buffer \<Rightarrow> bool" where
  "wire_frame_ok form key payload =
     ((case form of Len7 \<Rightarrow> length payload < 126
       | Len16 \<Rightarrow> length payload < 65536
       | Len64 \<Rightarrow> length payload < 2 ^ 64) \<and>
      (case key of None \<Rightarrow> True | Some k \<Rightarrow> length k = 4))"

text \<open>The conversions between text and bytes used at the concrete inputs below. On
  ASCII text they are what \<open>Buffer.from(s, "utf8")\<close> and \<open>buf.toString("utf8")\<close> compute.\<close>

definition ascii_bytes :: "string \<Rightarrow> buffer" where
  "ascii_bytes s = map (\<lambda>c. word_of_nat (of_char c)) s"

definition ascii_text :: "buffer \<Rightarrow> string" where
  "ascii_text bs = map (\<lambda>b. char_of (unat b)) bs"

text \<open>\<open>registry_ok\<close>: the registry holds no socket twice and at most \<open>MAX_CONNECTIONS\<close>
  sockets. \<open>credential_checked rt evs w\<close>: the sockets of the upgrade requests, among the
  events \<open>evs\<close> run from \<open>w\<close>, whose authorization header was equal to the (non-empty)
  credential the server held when the request arrived. \<open>is_dispatch\<close>: the call is a
  call of \<open>onMessage\<close>. \<open>recognised\<close>: the method is one of the five the dispatcher has a
  case for.\<close>

definition registry_ok :: "world \<Rightarrow> bool" where
  "registry_ok w = (distinct (connections w) \<and> length (connections w) \<le> MAX_CONNECTIONS)"

fun credential_checked :: "node_runtime \<Rightarrow> event list \<Rightarrow> world \<Rightarrow> socket set" where
  "credential_checked rt [] w = {}"
| "credential_checked rt (e # evs) w =
     (case e of
        Upgrade request s \<Rightarrow>
          if headers request ''x-claude-code-ide-authorization'' = Some (Single (authToken w)) \<and>
             authToken w \<noteq> []
          then {s} else {}
      | _ \<Rightarrow> {}) \<union> credential_checked rt evs (step rt e w)"

fun is_dispatch :: "effect \<Rightarrow> bool" where
  "is_dispatch (OnMessage message s) = True"
| "is_dispatch _ = False"

definition recognised :: "json option \<Rightarrow> bool" where
  "recognised m =
     (m = Some (JStr ''initialize'') \<or> m = Some (JStr ''initialized'') \<or>
      m = Some (JStr ''files/read'') \<or> m = Some (JStr ''workspace/selection'') \<or>
      m = Some (JStr ''resources/list''))"

text \<open>Concrete inputs: a runtime whose text conversions are the ASCII ones, whose
  \<open>JSON.stringify\<close> always returns \<open>{}\<close> and whose digest is the identity; upgrade
  requests with given key and authorization headers; the state after the credential
  \<open>secret\<close> has been set, and the state after ten accepted upgrades; a host application
  with one note and no active view; and some messages.\<close>

definition sample_runtime :: node_runtime where
  "sample_runtime =
     \<lparr>fromUtf8 = ascii_bytes, toUtf8String = ascii_text,
      JSON_parse = (\<lambda>text. if text = ''null'' then Some JNull else None),
      JSON_stringify = (\<lambda>message. Some ''{}''),
      sha1_base64 = (\<lambda>text. text)\<rparr>"

definition sample_request :: "string option \<Rightarrow> string option \<Rightarrow> UpgradeRequest" where
  "sample_request key auth =
     \<lparr>headers = (\<lambda>name. if name = ''sec-websocket-key'' then map_option Single key
                        else if name = ''x-claude-code-ide-authorization'' then map_option Single auth
                        else None),
      url = Some ''/''\<rparr>"

definition good_request :: UpgradeRequest where
  "good_request = sample_request (Some ''a2V5'') (Some ''secret'')"

definition ten_upgrades :: "event list" where
  "ten_upgrades =
     SetAuthToken ''secret'' #
     map (\<lambda>s. Upgrade (sample_request (Some ''a2V5'') (Some ''secret'')) s) [0 ..< 10]"

definition token_world :: world where
  "token_world = setAuthToken ''secret'' initial_world"

definition full_world :: world where
  "full_world = run sample_runtime ten_upgrades initial_world"




definition sample_app :: obsidian_app where
  "sample_app =
     \<lparr>getAbstractFileByPath =
        (\<lambda>path. if path = JStr ''note.md'' then Some (TFile (Inr ''hello'')) else None),
      getActiveViewOfType = None,
      template_text = (\<lambda>v. case v of JStr text \<Rightarrow> text | _ \<Rightarrow> ''[object]'')\<rparr>"

definition bogus_notification :: json where
  "bogus_notification = JObj [(''jsonrpc'', JStr ''2.0''), (''method'', JStr ''bogus'')]"

definition read_notification :: json where
  "read_notification = JObj [(''jsonrpc'', JStr ''2.0''), (''method'', JStr ''files/read'')]"

definition read_request_id0 :: json where
  "read_request_id0 =
     JObj [(''jsonrpc'', JStr ''2.0''), (''id'', JNum 0), (''method'', JStr ''files/read'')]"

definition read_request_id7 :: json where
  "read_request_id7 =
     JObj [(''jsonrpc'', JStr ''2.0''), (''id'', JNum 7), (''method'', JStr ''files/read'')]"

definition read_request_note :: json where
  "read_request_note =
     JObj [(''jsonrpc'', JStr ''2.0''), (''id'', JStr ''r-1''), (''method'', JStr ''files/read''),
           (''params'', JObj [(''path'', JStr ''note.md'')])]"

definition odd_method_notification :: json where
  "odd_method_notification =
     JObj [(''jsonrpc'', JStr ''2.0''), (''method'', JObj [(''toString'', JNum 1)])]"

definition odd_method_request_id0 :: json where
  "odd_method_request_id0 =
     JObj [(''jsonrpc'', JStr ''2.0''), (''id'', JNum 0),
           (''method'', JObj [(''toString'', JNum 1)])]"

definition odd_method_request_id7 :: json where
  "odd_method_request_id7 =
     JObj [(''jsonrpc'', JStr ''2.0''), (''id'', JNum 7),
           (''method'', JObj [(''toString'', JNum 1)])]"

definition initialized_request :: json where
  "initialized_request =
     JObj [(''jsonrpc'', JStr ''2.0''), (''id'', JNum 1), (''method'', JStr ''initialized'')]"

definition initialize_request :: json where
  "initialize_request =
     JObj [(''jsonrpc'', JStr ''2.0''), (''id'', JNum 1), (''method'', JStr ''initialize'')]"


section \<open>The frame codec: lemmas\<close>

lemma read_header_advances:
  "read_header fullBuffer offset = Some h \<Longrightarrow> offset + 2 \<le> payloadOffset h"
  by (auto simp: read_header_def extended_length_def Let_def
           split: if_splits option.splits prod.splits)

lemma be_value_snoc: "be_value (bs @ [b]) = be_value bs * 256 + unat b"
  by (simp add: be_value_def)

lemma be_value_be_bytes: "v < 256 ^ n \<Longrightarrow> be_value (be_bytes n v) = v"
proof (induction n arbitrary: v)
  case 0
  then show ?case by (simp add: be_value_def)
next
  case (Suc n)
  have "v div 256 < 256 ^ n" using Suc.prems by (simp add: less_mult_imp_div_less)
  then have "be_value (be_bytes n (v div 256)) = v div 256" by (rule Suc.IH)
  moreover have "unat (word_of_nat (v mod 256) :: byte) = v mod 256"
    by (simp add: unat_of_nat)
  ultimately show ?case by (simp add: be_value_snoc)
qed

lemma length_be_bytes: "length (be_bytes n v) = n"
  by (induction n arbitrary: v) auto

lemma small_len_byte:
  assumes "n < 126"
  shows "unat ((word_of_nat n :: byte) AND 0x7f) = n"
    and "(word_of_nat n :: byte) AND 0x80 \<noteq> 0x80"
proof -
  have m: "(0x7f :: byte) = mask 7" by (simp add: mask_eq_exp_minus_1)
  have lt: "(word_of_nat n :: byte) < 2 ^ 7"
    using assms by (simp add: word_less_nat_alt unat_of_nat)
  have eq: "(word_of_nat n :: byte) AND 0x7f = word_of_nat n"
    unfolding m using lt by (rule less_mask_eq)
  show "unat ((word_of_nat n :: byte) AND 0x7f) = n"
    using assms by (simp add: eq unat_of_nat)
  have "(word_of_nat n :: byte) AND 0x80 = (word_of_nat n AND 0x7f) AND 0x80"
    by (simp add: eq)
  also have "\<dots> = word_of_nat n AND (0x7f AND 0x80)"
    by (simp only: and.assoc)
  also have "\<dots> = 0" by simp
  finally show "(word_of_nat n :: byte) AND 0x80 \<noteq> 0x80" by simp
qed

lemma subarray_shift:
  "subarray (pre @ buf) (length pre + a) (length pre + b) = subarray buf a b"
  by (simp add: subarray_def)

lemma subarray_extend:
  "b \<le> length buf \<Longrightarrow> subarray (buf @ ext) a b = subarray buf a b"
  by (simp add: subarray_def)

lemma extended_length_shift:
  "extended_length (pre @ buf) len (length pre + off) =
     map_option (\<lambda>(l, p). (l, length pre + p)) (extended_length buf len off)"
  by (simp add: extended_length_def readUInt16BE_def readBigUInt64BE_def subarray_def)

lemma read_header_shift:
  "read_header (pre @ buf) (length pre + off) =
     map_option (\<lambda>h. h\<lparr>payloadOffset := length pre + payloadOffset h\<rparr>) (read_header buf off)"
proof -
  have e: "extended_length (pre @ buf) len (length pre + off + 2) =
     map_option (\<lambda>(l, p). (l, length pre + p)) (extended_length buf len (off + 2))" for len
    using extended_length_shift [of pre buf len "off + 2"] by (simp add: add.assoc)
  have n1: "(pre @ buf) ! (length pre + off) = buf ! off" by simp
  have n2: "(pre @ buf) ! (length pre + off + 1) = buf ! (off + 1)"
    by (simp add: nth_append)
  have s: "subarray (pre @ buf) (length pre + p) (length pre + p + 4) = subarray buf p (p + 4)" for p
    by (simp add: subarray_def)
  show ?thesis
    unfolding read_header_def Let_def e n1 n2
    by (auto simp: subarray_def split: option.splits)
qed

lemma extended_length_extend:
  "extended_length buf len off = Some r \<Longrightarrow> extended_length (buf @ ext) len off = Some r"
  by (auto simp: extended_length_def readUInt16BE_def readBigUInt64BE_def subarray_extend
           split: if_splits)

lemma read_header_extend:
  assumes "read_header buf off = Some h"
  shows "read_header (buf @ ext) off = Some h"
proof -
  from assms have len: "off + 2 \<le> length buf"
    by (auto simp: read_header_def split: if_splits)
  then have n: "(buf @ ext) ! off = buf ! off" "(buf @ ext) ! (off + 1) = buf ! (off + 1)"
    by (simp_all add: nth_append)
  from assms len obtain l p where
    e: "extended_length buf (unat (buf ! (off + 1) AND 0x7f)) (off + 2) = Some (l, p)"
    by (auto simp: read_header_def Let_def split: option.splits)
  have e': "extended_length (buf @ ext) (unat (buf ! (off + 1) AND 0x7f)) (off + 2) = Some (l, p)"
    using e by (rule extended_length_extend)
  show ?thesis
    using assms len
    unfolding read_header_def Let_def n e e'
    by (auto simp: subarray_extend split: if_splits)
qed

lemma payload_bytes_shift:
  "payload_bytes (pre @ buf) (h\<lparr>payloadOffset := length pre + payloadOffset h\<rparr>) = payload_bytes buf h"
  by (simp add: payload_bytes_def subarray_def Let_def split: option.splits)

lemma payload_bytes_extend:
  "payloadOffset h + payloadLength h \<le> length buf \<Longrightarrow>
   payload_bytes (buf @ ext) h = payload_bytes buf h"
  by (simp add: payload_bytes_def subarray_extend)

lemma parse_loop_stop_header:
  "read_header buf off = None \<Longrightarrow> parse_loop f buf off msgs = (msgs, off)"
  by (subst parse_loop.simps) simp

lemma parse_loop_stop_payload:
  "read_header buf off = Some h \<Longrightarrow> length buf < payloadOffset h + payloadLength h \<Longrightarrow>
   parse_loop f buf off msgs = (msgs, off)"
  by (subst parse_loop.simps) simp

lemma parse_loop_step:
  assumes "read_header buf off = Some h" and "payloadOffset h + payloadLength h \<le> length buf"
  shows "parse_loop f buf off msgs =
         parse_loop f buf (payloadOffset h + payloadLength h)
           (if opcode h = 0x1 then msgs @ [f (payload_bytes buf h)] else msgs)"
proof -
  have "off < length buf"
    using read_header_advances [OF assms(1)] assms(2) by simp
  then show ?thesis
    using assms by (subst parse_loop.simps) simp
qed

lemma parse_loop_shift:
  "parse_loop f (pre @ buf) (length pre + off) msgs =
     (case parse_loop f buf off msgs of (m, p) \<Rightarrow> (m, length pre + p))"
proof (induction f buf off msgs rule: parse_loop.induct)
  case (1 f buf off msgs)
  show ?case
  proof (cases "read_header buf off")
    case None
    then have "read_header (pre @ buf) (length pre + off) = None"
      by (simp add: read_header_shift)
    then show ?thesis
      using None by (simp add: parse_loop_stop_header)
  next
    case (Some h)
    let ?h = "h\<lparr>payloadOffset := length pre + payloadOffset h\<rparr>"
    have sh: "read_header (pre @ buf) (length pre + off) = Some ?h"
      using Some by (simp add: read_header_shift)
    show ?thesis
    proof (cases "payloadOffset h + payloadLength h \<le> length buf")
      case True
      have lt: "off < length buf"
        using read_header_advances [OF Some] True by simp
      have ih: "parse_loop f (pre @ buf) (length pre + (payloadOffset h + payloadLength h))
                  (if opcode h = 0x1 then msgs @ [f (payload_bytes buf h)] else msgs) =
                (case parse_loop f buf (payloadOffset h + payloadLength h)
                  (if opcode h = 0x1 then msgs @ [f (payload_bytes buf h)] else msgs) of
                   (m, p) \<Rightarrow> (m, length pre + p))"
        using "1.IH" [OF lt Some] True by simp
      have l: "parse_loop f (pre @ buf) (length pre + off) msgs =
               parse_loop f (pre @ buf) (length pre + (payloadOffset h + payloadLength h))
                  (if opcode h = 0x1 then msgs @ [f (payload_bytes buf h)] else msgs)"
        using parse_loop_step [OF sh, of f msgs] True
        by (simp add: payload_bytes_shift add.assoc)
      have r: "parse_loop f buf off msgs =
               parse_loop f buf (payloadOffset h + payloadLength h)
                  (if opcode h = 0x1 then msgs @ [f (payload_bytes buf h)] else msgs)"
        using Some True by (rule parse_loop_step)
      show ?thesis
        unfolding l r by (rule ih)
    next
      case False
      then have "parse_loop f buf off msgs = (msgs, off)"
        using Some by (simp add: parse_loop_stop_payload)
      moreover have "parse_loop f (pre @ buf) (length pre + off) msgs = (msgs, length pre + off)"
        using sh False by (simp add: parse_loop_stop_payload)
      ultimately show ?thesis by simp
    qed
  qed
qed

lemma parse_loop_acc:
  "parse_loop f buf off msgs =
     (case parse_loop f buf off [] of (m, p) \<Rightarrow> (msgs @ m, p))"
proof (induction "length buf - off" arbitrary: off msgs rule: less_induct)
  case less
  show ?case
  proof (cases "read_header buf off")
    case None
    then show ?thesis by (simp add: parse_loop_stop_header)
  next
    case (Some h)
    show ?thesis
    proof (cases "payloadOffset h + payloadLength h \<le> length buf")
      case True
      let ?p = "payloadOffset h + payloadLength h"
      let ?new = "if opcode h = 0x1 then [f (payload_bytes buf h)] else []"
      have smaller: "length buf - ?p < length buf - off"
        using read_header_advances [OF Some] True by simp
      have step: "parse_loop f buf off ms = parse_loop f buf ?p (ms @ ?new)" for ms
        using parse_loop_step [OF Some True, of f ms] by simp
      have ih: "parse_loop f buf ?p ms =
               (case parse_loop f buf ?p [] of (m, p) \<Rightarrow> (ms @ m, p))" for ms
        using less [OF smaller] .
      show ?thesis
        unfolding step [of msgs] step [of "[]"]
        by (subst ih, subst (2) ih) (simp split: prod.splits)
    next
      case False
      then show ?thesis
        using Some by (simp add: parse_loop_stop_payload)
    qed
  qed
qed

lemma read_header_short:
  assumes "n < 126"
  shows "read_header ([0x81, word_of_nat n] @ rest) 0 = Some (text_header 2 n)"
  using small_len_byte [OF assms] assms
  by (simp add: read_header_def extended_length_def text_header_def)

lemma read_header_16:
  assumes "n < 65536"
  shows "read_header (([0x81, 126] @ writeUInt16BE n) @ rest) 0 = Some (text_header 4 n)"
proof -
  have "be_value (be_bytes 2 n) = n"
    using assms by (intro be_value_be_bytes) simp
  moreover have "subarray (([0x81, 126] @ be_bytes 2 n) @ rest) 2 4 = be_bytes 2 n"
    by (simp add: subarray_def length_be_bytes)
  ultimately have r: "readUInt16BE (([0x81, 126] @ be_bytes 2 n) @ rest) 2 = n"
    by (simp add: readUInt16BE_def)
  have l: "length (be_bytes 2 n) = 2" by (rule length_be_bytes)
  have r': "readUInt16BE (([0x81, 126] @ be_bytes 2 n) @ rest) (Suc (Suc 0)) = n"
    using r by (simp add: numeral_2_eq_2)
  show ?thesis
    using r' l
    by (simp add: read_header_def extended_length_def text_header_def writeUInt16BE_def)
qed

lemma read_header_64:
  assumes "n < 2 ^ 64"
  shows "read_header (([0x81, 127] @ be_bytes 8 n) @ rest) 0 = Some (text_header 10 n)"
proof -
  have "n < 256 ^ 8" using assms by simp
  then have "be_value (be_bytes 8 n) = n"
    by (rule be_value_be_bytes)
  moreover have "subarray (([0x81, 127] @ be_bytes 8 n) @ rest) 2 10 = be_bytes 8 n"
    by (simp add: subarray_def length_be_bytes)
  ultimately have r: "readBigUInt64BE (([0x81, 127] @ be_bytes 8 n) @ rest) 2 = n"
    by (simp add: readBigUInt64BE_def)
  have l: "length (be_bytes 8 n) = 8" by (rule length_be_bytes)
  have r': "readBigUInt64BE (([0x81, 127] @ be_bytes 8 n) @ rest) (Suc (Suc 0)) = n"
    using r by (simp add: numeral_2_eq_2)
  show ?thesis
    using r' l
    by (simp add: read_header_def extended_length_def text_header_def)
qed

lemma created_frame_header:
  assumes "createWebSocketFrame enc s = Inr frame"
  shows "\<exists>hdr. frame = hdr @ enc s \<and>
           (\<forall>rest. read_header (hdr @ rest) 0 = Some (text_header (length hdr) (length (enc s))))"
proof -
  let ?n = "length (enc s)"
  consider (short) "?n < 126" | (mid) "126 \<le> ?n" "?n < 65536" | (big) "65536 \<le> ?n"
    by linarith
  then show ?thesis
  proof cases
    case short
    then have "frame = [0x81, word_of_nat ?n] @ enc s"
      using assms by (simp add: createWebSocketFrame_def Let_def)
    moreover have "\<forall>rest. read_header ([0x81, word_of_nat ?n] @ rest) 0 =
                     Some (text_header (length [0x81 :: byte, word_of_nat ?n]) ?n)"
      using read_header_short [OF short] by (simp add: numeral_2_eq_2)
    ultimately show ?thesis by blast
  next
    case mid
    then have "frame = ([0x81, 126] @ writeUInt16BE ?n) @ enc s"
      using assms by (simp add: createWebSocketFrame_def Let_def)
    moreover have "\<forall>rest. read_header (([0x81, 126] @ writeUInt16BE ?n) @ rest) 0 =
                     Some (text_header (length ([0x81 :: byte, 126] @ writeUInt16BE ?n)) ?n)"
      using read_header_16 [OF mid(2)] by (simp add: writeUInt16BE_def length_be_bytes)
    ultimately show ?thesis by blast
  next
    case big
    then have lt: "?n < 2 ^ 64" and f: "frame = ([0x81, 127] @ be_bytes 8 ?n) @ enc s"
      using assms
      by (auto simp: createWebSocketFrame_def writeBigUInt64BE_def Let_def split: if_splits)
    have "\<forall>rest. read_header (([0x81, 127] @ be_bytes 8 ?n) @ rest) 0 =
                     Some (text_header (length ([0x81 :: byte, 127] @ be_bytes 8 ?n)) ?n)"
      using read_header_64 [OF lt] by (simp add: length_be_bytes)
    with f show ?thesis by blast
  qed
qed

lemma createWebSocketFrame_total:
  "length (enc s) < 2 ^ 64 \<Longrightarrow> \<exists>frame. createWebSocketFrame enc s = Inr frame"
  by (simp add: createWebSocketFrame_def writeBigUInt64BE_def Let_def)

lemma parse_loop_end: "length buf \<le> off \<Longrightarrow> parse_loop f buf off msgs = (msgs, off)"
  by (subst parse_loop.simps) simp

lemma payload_bytes_text: "payload_bytes (hdr @ p @ rest) (text_header (length hdr) (length p)) = p"
  by (simp add: payload_bytes_def text_header_def subarray_def)

text \<open>One created frame at the front of a buffer is consumed in one step.\<close>
lemma parse_created_frame:
  assumes "createWebSocketFrame enc s = Inr frame"
  shows "parse_loop dec (frame @ rest) 0 msgs =
         parse_loop dec (frame @ rest) (length frame) (msgs @ [dec (enc s)])"
proof -
  from created_frame_header [OF assms] obtain hdr where
    f: "frame = hdr @ enc s" and
    h: "\<And>rest. read_header (hdr @ rest) 0 = Some (text_header (length hdr) (length (enc s)))"
    by blast
  have h': "read_header (frame @ rest) 0 = Some (text_header (length hdr) (length (enc s)))"
    using h [of "enc s @ rest"] by (simp add: f)
  have c: "payloadOffset (text_header (length hdr) (length (enc s))) +
           payloadLength (text_header (length hdr) (length (enc s))) \<le> length (frame @ rest)"
    by (simp add: f text_header_def)
  have p: "payload_bytes (frame @ rest) (text_header (length hdr) (length (enc s))) = enc s"
    using payload_bytes_text [of hdr "enc s" rest] by (simp add: f)
  show ?thesis
    using parse_loop_step [OF h' c, of dec msgs]
    by (simp add: p) (simp add: text_header_def f)
qed


lemma read_header_key:
  assumes "read_header buf off = Some h"
  shows "if masked h
         then maskKey h = Some (subarray buf (payloadOffset h - 4) (payloadOffset h)) \<and>
              off + 4 \<le> payloadOffset h
         else maskKey h = None"
proof -
  have four: "Suc (Suc (Suc (Suc n))) = 4 + n" for n by simp
  show ?thesis
    using assms
    by (auto simp: read_header_def extended_length_def Let_def four
             split: if_splits option.splits prod.splits)
qed

lemma payload_bytes_region:
  assumes "read_header buf off = Some h"
  shows "payload_bytes buf h = region_bytes buf (payloadOffset h, payloadLength h, masked h)"
  using read_header_key [OF assms]
  by (auto simp: payload_bytes_def region_bytes_def split: if_splits)

lemma parse_loop_regions:
  "off \<le> length buf \<Longrightarrow>
   \<exists>off' rs. parse_loop dec buf off msgs = (msgs @ map (\<lambda>r. dec (region_bytes buf r)) rs, off') \<and>
             off' \<le> length buf \<and> regions_between off rs off'"
proof (induction "length buf - off" arbitrary: off msgs rule: less_induct)
  case less
  show ?case
  proof (cases "read_header buf off")
    case None
    then have "parse_loop dec buf off msgs = (msgs @ map (\<lambda>r. dec (region_bytes buf r)) [], off)"
      by (simp add: parse_loop_stop_header)
    moreover have "regions_between off [] off" by simp
    ultimately show ?thesis using less.prems by blast
  next
    case (Some h)
    show ?thesis
    proof (cases "payloadOffset h + payloadLength h \<le> length buf")
      case False
      then have "parse_loop dec buf off msgs = (msgs @ map (\<lambda>r. dec (region_bytes buf r)) [], off)"
        using Some by (simp add: parse_loop_stop_payload)
      moreover have "regions_between off [] off" by simp
      ultimately show ?thesis using less.prems by blast
    next
      case True
      let ?p = "payloadOffset h + payloadLength h"
      let ?g = "\<lambda>r. dec (region_bytes buf r)"
      let ?reg = "(payloadOffset h, payloadLength h, masked h)"
      have smaller: "length buf - ?p < length buf - off"
        using read_header_advances [OF Some] True by simp
      have step: "parse_loop dec buf off msgs =
                  parse_loop dec buf ?p (if opcode h = 0x1 then msgs @ [?g ?reg] else msgs)"
        using parse_loop_step [OF Some True, of dec msgs]
        by (simp add: payload_bytes_region [OF Some])
      from less.hyps [OF smaller True] obtain off' rs where
        ih: "parse_loop dec buf ?p (if opcode h = 0x1 then msgs @ [?g ?reg] else msgs) =
             ((if opcode h = 0x1 then msgs @ [?g ?reg] else msgs) @ map ?g rs, off')"
        and le: "off' \<le> length buf" and rb: "regions_between ?p rs off'"
        by blast
      have mono: "regions_between off rs off'"
        using rb read_header_advances [OF Some]
        by (cases rs) auto
      have first: "off + (if masked h then 4 else 0) \<le> payloadOffset h"
        using read_header_key [OF Some] read_header_advances [OF Some]
        by (auto split: if_splits)
      show ?thesis
      proof (cases "opcode h = 0x1")
        case t: True
        have "parse_loop dec buf off msgs = (msgs @ map ?g (?reg # rs), off')"
          using step ih t by simp
        moreover have "regions_between off (?reg # rs) off'"
          using rb first by simp
        ultimately show ?thesis using le by blast
      next
        case f: False
        have "parse_loop dec buf off msgs = (msgs @ map ?g rs, off')"
          using step ih f by simp
        then show ?thesis using le mono by blast
      qed
    qed
  qed
qed


section \<open>The frame codec: properties\<close>

text \<open>
  C1 (framing round-trip). For every string \<open>s\<close> that Node's UTF-8 conversion carries
  unchanged (\<open>dec (enc s) = s\<close>, which is what being a UTF-8 string means for the two
  conversions) and whose encoding is shorter than \<open>2 ^ 64\<close> bytes (every Node Buffer
  is), \<open>createWebSocketFrame\<close> returns a frame, and \<open>parseWebSocketFrames\<close> on that
  frame with an empty existing buffer returns exactly the payload list \<open>[s]\<close> and an
  empty remaining buffer.
\<close>

theorem framing_round_trip:
  assumes "dec (enc s) = s" and "length (enc s) < 2 ^ 64"
  shows "\<exists>frame. createWebSocketFrame enc s = Inr frame \<and>
           parseWebSocketFrames dec frame [] = \<lparr>parsed = [s], remaining = []\<rparr>"
proof -
  from createWebSocketFrame_total [of enc s] assms(2) obtain frame where
    f: "createWebSocketFrame enc s = Inr frame" by blast
  have "parse_loop dec frame 0 [] = ([s], length frame)"
    using parse_created_frame [OF f, of dec "[]" "[]"] assms(1)
    by (simp add: parse_loop_end)
  then have "parseWebSocketFrames dec frame [] = \<lparr>parsed = [s], remaining = []\<rparr>"
    by (simp add: parseWebSocketFrames_def)
  with f show ?thesis by blast
qed

theorem framing_round_trip_witness:
  "ascii_text (ascii_bytes ''hi'') = ''hi'' \<and> length (ascii_bytes ''hi'') < 2 ^ 64 \<and>
   (\<exists>frame. createWebSocketFrame ascii_bytes ''hi'' = Inr frame \<and>
      parseWebSocketFrames ascii_text frame [] = \<lparr>parsed = [''hi''], remaining = []\<rparr>)"
proof -
  have a: "ascii_text (ascii_bytes ''hi'') = ''hi''" by code_simp
  have b: "length (ascii_bytes ''hi'') < 2 ^ 64" by (simp add: ascii_bytes_def)
  show ?thesis
    using a b framing_round_trip [of ascii_text ascii_bytes "''hi''", OF a b] by blast
qed

text \<open>
  C7 (incremental feed). Let an encoded frame be split at any index \<open>k\<close> inside it into
  the chunks \<open>take k frame\<close> and \<open>drop k frame\<close> (the first chunk may be empty; it is not
  the whole frame). Decoding the first chunk returns no payload and exactly that chunk
  as the remaining buffer, and decoding the second chunk with that remainder as the
  existing buffer returns the same payloads and remainder as decoding the whole frame
  at once: the incomplete frame is kept from its first header byte on.
\<close>

theorem incremental_feed:
  assumes "createWebSocketFrame enc s = Inr frame" and "k < length frame"
  shows "parseWebSocketFrames dec (take k frame) [] =
           \<lparr>parsed = [], remaining = take k frame\<rparr> \<and>
         parseWebSocketFrames dec (drop k frame)
             (remaining (parseWebSocketFrames dec (take k frame) [])) =
           parseWebSocketFrames dec frame []"
proof -
  let ?c1 = "take k frame" and ?c2 = "drop k frame"
  have split: "frame = ?c1 @ ?c2" by simp
  have short: "length ?c1 < length frame" using assms(2) by simp
  from created_frame_header [OF assms(1)] obtain hdr where
    f: "frame = hdr @ enc s" and
    h: "\<And>rest. read_header (hdr @ rest) 0 = Some (text_header (length hdr) (length (enc s)))"
    by blast
  have "read_header frame 0 = Some (text_header (length hdr) (length (enc s)))"
    using h [of "enc s"] f by simp
  then have whole: "read_header (?c1 @ ?c2) 0 = Some (text_header (length hdr) (length (enc s)))"
    by (simp only: append_take_drop_id)
  have "parse_loop dec ?c1 0 [] = ([], 0)"
  proof (cases "read_header ?c1 0")
    case None
    then show ?thesis by (rule parse_loop_stop_header)
  next
    case (Some h1)
    then have "read_header (?c1 @ ?c2) 0 = Some h1" by (rule read_header_extend)
    with whole have "h1 = text_header (length hdr) (length (enc s))" by simp
    then have "payloadOffset h1 + payloadLength h1 = length frame"
      by (simp add: text_header_def f)
    then have "length ?c1 < payloadOffset h1 + payloadLength h1"
      using short by simp
    with Some show ?thesis by (rule parse_loop_stop_payload)
  qed
  then have first: "parseWebSocketFrames dec ?c1 [] = \<lparr>parsed = [], remaining = ?c1\<rparr>"
    by (simp add: parseWebSocketFrames_def)
  have "parseWebSocketFrames dec ?c2 ?c1 = parseWebSocketFrames dec frame []"
    by (simp add: parseWebSocketFrames_def)
  with first show ?thesis by simp
qed

theorem incremental_feed_witness:
  "createWebSocketFrame ascii_bytes ''hi'' = Inr [0x81, 2, 0x68, 0x69] \<and>
   3 < length [0x81 :: byte, 2, 0x68, 0x69] \<and>
   parseWebSocketFrames ascii_text [0x81, 2, 0x68] [] =
     \<lparr>parsed = [], remaining = [0x81, 2, 0x68]\<rparr> \<and>
   parseWebSocketFrames ascii_text [0x69]
       (remaining (parseWebSocketFrames ascii_text [0x81, 2, 0x68] [])) =
     parseWebSocketFrames ascii_text [0x81, 2, 0x68, 0x69] []"
proof -
  have a: "createWebSocketFrame ascii_bytes ''hi'' = Inr [0x81, 2, 0x68, 0x69]"
    by (simp add: createWebSocketFrame_def ascii_bytes_def)
  have b: "3 < length [0x81 :: byte, 2, 0x68, 0x69]" by simp
  have c: "take 3 [0x81 :: byte, 2, 0x68, 0x69] = [0x81, 2, 0x68]"
          "drop 3 [0x81 :: byte, 2, 0x68, 0x69] = [0x69]"
    by (simp_all add: numeral_3_eq_3)
  show ?thesis
    using a b incremental_feed [OF a b, of ascii_text] unfolding c by blast
qed

text \<open>
  C8 (multi-frame batching). For two strings that the UTF-8 conversion carries
  unchanged, decoding the concatenation of their two encoded frames in one call, with an
  empty existing buffer, returns the payload list \<open>[s1, s2]\<close> in send order and an empty
  remaining buffer.
\<close>

theorem multi_frame_batching:
  assumes "dec (enc s1) = s1" and "dec (enc s2) = s2"
    and "createWebSocketFrame enc s1 = Inr f1" and "createWebSocketFrame enc s2 = Inr f2"
  shows "parseWebSocketFrames dec (f1 @ f2) [] = \<lparr>parsed = [s1, s2], remaining = []\<rparr>"
proof -
  have a: "parse_loop dec (f1 @ f2) 0 [] = parse_loop dec (f1 @ f2) (length f1) [s1]"
    using parse_created_frame [OF assms(3), of dec f2 "[]"] assms(1) by simp
  have b: "parse_loop dec f2 0 [s1] = ([s1, s2], length f2)"
    using parse_created_frame [OF assms(4), of dec "[]" "[s1]"] assms(2)
    by (simp add: parse_loop_end)
  have "parse_loop dec (f1 @ f2) (length f1 + 0) [s1] = ([s1, s2], length f1 + length f2)"
    unfolding parse_loop_shift b by simp
  with a have "parse_loop dec (f1 @ f2) 0 [] = ([s1, s2], length (f1 @ f2))" by simp
  then show ?thesis
    by (simp add: parseWebSocketFrames_def)
qed

theorem multi_frame_batching_witness:
  "ascii_text (ascii_bytes ''hi'') = ''hi'' \<and> ascii_text (ascii_bytes ''ok!'') = ''ok!'' \<and>
   createWebSocketFrame ascii_bytes ''hi'' = Inr [0x81, 2, 0x68, 0x69] \<and>
   createWebSocketFrame ascii_bytes ''ok!'' = Inr [0x81, 3, 0x6f, 0x6b, 0x21] \<and>
   parseWebSocketFrames ascii_text ([0x81, 2, 0x68, 0x69] @ [0x81, 3, 0x6f, 0x6b, 0x21]) [] =
     \<lparr>parsed = [''hi'', ''ok!''], remaining = []\<rparr>"
proof -
  have a: "ascii_text (ascii_bytes ''hi'') = ''hi''" by code_simp
  have b: "ascii_text (ascii_bytes ''ok!'') = ''ok!''" by code_simp
  have c: "createWebSocketFrame ascii_bytes ''hi'' = Inr [0x81, 2, 0x68, 0x69]"
    by (simp add: createWebSocketFrame_def ascii_bytes_def)
  have d: "createWebSocketFrame ascii_bytes ''ok!'' = Inr [0x81, 3, 0x6f, 0x6b, 0x21]"
    by (simp add: createWebSocketFrame_def ascii_bytes_def)
  show ?thesis
    using a b c d multi_frame_batching [OF a b c d] by blast
qed

text \<open>A frame whose header the decoder has read, whose payload ends where the frame
  ends and whose opcode is not \<open>0x1\<close> is passed over.\<close>

lemma non_text_header_skipped:
  assumes "read_header frame 0 = Some h"
    and "payloadOffset h + payloadLength h = length frame"
    and "opcode h \<noteq> 0x1"
  shows "parse_loop dec (before @ frame @ rest) (length before) messages =
           parse_loop dec (before @ frame @ rest) (length before + length frame) messages \<and>
         parseWebSocketFrames dec (frame @ rest) [] = parseWebSocketFrames dec rest []"
proof -
  have h': "read_header (frame @ rest) 0 = Some h"
    using assms(1) by (rule read_header_extend)
  have c: "payloadOffset h + payloadLength h \<le> length (frame @ rest)"
    using assms(2) by simp
  have skip: "parse_loop dec (frame @ rest) 0 ms = parse_loop dec (frame @ rest) (length frame) ms"
    for ms
    using parse_loop_step [OF h' c, of dec ms] assms(2,3) by simp
  have "parse_loop dec (before @ frame @ rest) (length before + 0) messages =
        (case parse_loop dec (frame @ rest) 0 messages of (m, p) \<Rightarrow> (m, length before + p))"
    by (rule parse_loop_shift)
  also have "\<dots> =
        (case parse_loop dec (frame @ rest) (length frame) messages of
           (m, p) \<Rightarrow> (m, length before + p))"
    by (simp only: skip)
  also have "\<dots> = parse_loop dec (before @ frame @ rest) (length before + length frame) messages"
    by (rule parse_loop_shift [symmetric])
  finally have first:
    "parse_loop dec (before @ frame @ rest) (length before) messages =
     parse_loop dec (before @ frame @ rest) (length before + length frame) messages"
    by simp
  have "parse_loop dec (frame @ rest) 0 [] = parse_loop dec (frame @ rest) (length frame + 0) []"
    using skip [of "[]"] by simp
  also have "\<dots> = (case parse_loop dec rest 0 [] of (m, p) \<Rightarrow> (m, length frame + p))"
    by (rule parse_loop_shift)
  finally have "parseWebSocketFrames dec (frame @ rest) [] = parseWebSocketFrames dec rest []"
    by (simp add: parseWebSocketFrames_def split: prod.splits)
  with first show ?thesis by simp
qed

text \<open>The decoder reads the header of every well-formed frame as the layout says: the
  opcode, the mask flag and key, the payload length in each of the three forms, and
  the offset of the payload after header, length field and key.\<close>

lemma low7:
  assumes "(x :: byte) < 128"
  shows "(0x80 OR x) AND 0x7f = x" and "(0x80 OR x) AND 0x80 = 0x80"
    and "(0 OR x) AND 0x7f = x" and "(0 OR x) AND 0x80 \<noteq> 0x80"
proof -
  have m: "(0x7f :: byte) = mask 7" by (simp add: mask_eq_exp_minus_1)
  have lt: "x < 2 ^ 7" using assms by simp
  have eq: "x AND 0x7f = x" unfolding m using lt by (rule less_mask_eq)
  have z: "x AND 0x80 = 0"
  proof -
    have "x AND 0x80 = (x AND 0x7f) AND 0x80" by (simp add: eq)
    also have "\<dots> = x AND (0x7f AND 0x80)" by (simp only: and.assoc)
    also have "\<dots> = 0" by simp
    finally show ?thesis .
  qed
  show "(0x80 OR x) AND 0x7f = x"
    by (simp add: bit.conj_disj_distrib2 eq)
  show "(0x80 OR x) AND 0x80 = 0x80"
    by (simp add: bit.conj_disj_distrib2 z)
  show "(0 OR x) AND 0x7f = x" by (simp add: eq)
  show "(0 OR x) AND 0x80 \<noteq> 0x80" by (simp add: z)
qed

lemma length_byte_facts:
  assumes "wire_frame_ok form key payload"
  shows "length_byte form (length payload) < 128"
    and "unat (length_byte form (length payload)) =
           (case form of Len7 \<Rightarrow> length payload | Len16 \<Rightarrow> 126 | Len64 \<Rightarrow> 127)"
    and "form = Len7 \<Longrightarrow> length payload < 126"
  using assms
  by (auto simp: wire_frame_ok_def length_byte_def word_less_nat_alt unat_of_nat
           split: length_form.splits)

lemma wire_frame_alt:
  "wire_frame firstByte form key payload =
     [firstByte, (if key = None then 0 else 0x80) OR length_byte form (length payload)] @
     length_field form (length payload) @ key_bytes key @ payload"
  by (simp add: wire_frame_def key_bytes_def)

lemma length_length_field:
  "length (length_field form n) = (case form of Len7 \<Rightarrow> 0 | Len16 \<Rightarrow> 2 | Len64 \<Rightarrow> 8)"
  by (simp add: length_field_def length_be_bytes split: length_form.splits)

lemma extended_length_wire:
  assumes "wire_frame_ok form key payload"
  shows "extended_length ([b0, b1] @ length_field form (length payload) @ tail)
           (unat (length_byte form (length payload))) 2 =
         Some (length payload, 2 + length (length_field form (length payload)))"
proof (cases form)
  case Len7
  then have "length payload < 126" using assms by (simp add: wire_frame_ok_def)
  then show ?thesis
    using Len7 by (simp add: extended_length_def length_byte_def length_field_def unat_of_nat)
next
  case Len16
  then have n: "length payload < 65536" using assms by (simp add: wire_frame_ok_def)
  have "be_value (be_bytes 2 (length payload)) = length payload"
    using n by (intro be_value_be_bytes) simp
  moreover have "subarray ([b0, b1] @ be_bytes 2 (length payload) @ tail) 2 4 =
                 be_bytes 2 (length payload)"
    by (simp add: subarray_def length_be_bytes)
  ultimately have "readUInt16BE ([b0, b1] @ be_bytes 2 (length payload) @ tail) 2 = length payload"
    by (simp add: readUInt16BE_def)
  then show ?thesis
    using Len16
    by (simp add: extended_length_def length_byte_def length_field_def length_be_bytes)
next
  case Len64
  then have n: "length payload < 256 ^ 8" using assms by (simp add: wire_frame_ok_def)
  have "be_value (be_bytes 8 (length payload)) = length payload"
    using n by (rule be_value_be_bytes)
  moreover have "subarray ([b0, b1] @ be_bytes 8 (length payload) @ tail) 2 10 =
                 be_bytes 8 (length payload)"
    by (simp add: subarray_def length_be_bytes)
  ultimately have "readBigUInt64BE ([b0, b1] @ be_bytes 8 (length payload) @ tail) 2 = length payload"
    by (simp add: readBigUInt64BE_def)
  then show ?thesis
    using Len64
    by (simp add: extended_length_def length_byte_def length_field_def length_be_bytes)
qed

lemma read_header_wire_frame:
  assumes "wire_frame_ok form key payload"
  shows "read_header (wire_frame firstByte form key payload @ rest) 0 =
         Some \<lparr>opcode = firstByte AND 0x0f, masked = (key \<noteq> None), maskKey = key,
               payloadOffset = length (wire_frame firstByte form key payload) - length payload,
               payloadLength = length payload\<rparr>"
proof -
  let ?n = "length payload"
  let ?lb = "length_byte form ?n"
  let ?lf = "length_field form ?n"
  let ?b1 = "(if key = None then 0 else 0x80) OR ?lb"
  let ?buf = "[firstByte, ?b1] @ ?lf @ (key_bytes key @ payload @ rest)"
  have buf: "wire_frame firstByte form key payload @ rest = ?buf"
    by (simp add: wire_frame_alt)
  have lb: "?lb < 128" using length_byte_facts(1) [OF assms] .
  have el: "extended_length ?buf (unat ?lb) 2 = Some (?n, 2 + length ?lf)"
    using assms by (rule extended_length_wire)
  have len: "length (wire_frame firstByte form key payload) - ?n = 2 + length ?lf + length (key_bytes key)"
    by (simp add: wire_frame_alt)
  show ?thesis
  proof (cases key)
    case None
    have b: "?b1 AND 0x7f = ?lb" "?b1 AND 0x80 \<noteq> 0x80"
      using low7(3,4) [OF lb] None by simp_all
    have "read_header ?buf 0 =
          Some \<lparr>opcode = firstByte AND 0x0f, masked = False, maskKey = None,
                payloadOffset = 2 + length ?lf, payloadLength = ?n\<rparr>"
      unfolding read_header_def Let_def
      using b el by (simp add: numeral_2_eq_2)
    then show ?thesis
      unfolding buf len using None by (simp add: key_bytes_def)
  next
    case (Some k)
    then have k4: "length k = 4" using assms by (simp add: wire_frame_ok_def)
    have b: "?b1 AND 0x7f = ?lb" "?b1 AND 0x80 = 0x80"
      using low7(1,2) [OF lb] Some by simp_all
    have sub: "subarray ?buf (2 + length ?lf) (2 + length ?lf + 4) = k"
      using k4 Some by (simp add: subarray_def key_bytes_def)
    have enough: "\<not> length ?buf < 2 + length ?lf + 4"
      using k4 Some by (simp add: key_bytes_def)
    have "read_header ?buf 0 =
          Some \<lparr>opcode = firstByte AND 0x0f, masked = True, maskKey = Some k,
                payloadOffset = 2 + length ?lf + 4, payloadLength = ?n\<rparr>"
      unfolding read_header_def Let_def
      using b el sub enough by (simp add: numeral_2_eq_2)
    then show ?thesis
      unfolding buf len using Some k4 by (simp add: key_bytes_def)
  qed
qed

text \<open>
  C9 (non-text frames are skipped). Let a complete frame be laid out as section 4.1
  describes, with any first byte whose opcode is not \<open>0x1\<close>, any of the three length
  forms, masked or not, and any payload. Wherever it stands in the decode input, the
  loop moves its cursor from the first byte of the frame to the first byte after its
  payload (past header, extended length, mask key and payload) and leaves the payload
  list as it was; so a buffer that starts with such a frame decodes to the payloads
  and the remainder of what follows the frame.
\<close>

theorem non_text_frame_skipped:
  assumes "wire_frame_ok form key payload" and "firstByte AND 0x0f \<noteq> 0x1"
  shows "parse_loop dec (before @ wire_frame firstByte form key payload @ rest)
             (length before) messages =
           parse_loop dec (before @ wire_frame firstByte form key payload @ rest)
             (length before + length (wire_frame firstByte form key payload)) messages \<and>
         parseWebSocketFrames dec (wire_frame firstByte form key payload @ rest) [] =
           parseWebSocketFrames dec rest []"
proof -
  let ?frame = "wire_frame firstByte form key payload"
  let ?h = "\<lparr>opcode = firstByte AND 0x0f, masked = (key \<noteq> None), maskKey = key,
             payloadOffset = length ?frame - length payload, payloadLength = length payload\<rparr>"
  have h: "read_header ?frame 0 = Some ?h"
    using read_header_wire_frame [OF assms(1), of firstByte "[]"] by simp
  have "length payload \<le> length ?frame" by (simp add: wire_frame_def)
  then have whole: "payloadOffset ?h + payloadLength ?h = length ?frame" by simp
  have op: "opcode ?h \<noteq> 0x1" using assms(2) by simp
  show ?thesis
    using h whole op by (rule non_text_header_skipped)
qed

theorem non_text_frame_skipped_witness:
  "wire_frame 0x89 Len7 (Some [1, 2, 3, 4]) [0x55] = [0x89, 0x81, 1, 2, 3, 4, 0x55] \<and>
   parseWebSocketFrames ascii_text
       ([0x89, 0x81, 1, 2, 3, 4, 0x55] @ [0x81, 2, 0x68, 0x69]) [] =
     \<lparr>parsed = [''hi''], remaining = []\<rparr> \<and>
   wire_frame 0x82 Len16 None (replicate 200 0) = [0x82, 126, 0, 200] @ replicate 200 0 \<and>
   parseWebSocketFrames ascii_text
       (([0x82, 126, 0, 200] @ replicate 200 0) @ [0x81, 2, 0x68, 0x69]) [] =
     \<lparr>parsed = [''hi''], remaining = []\<rparr> \<and>
   wire_frame 0x88 Len64 (Some [9, 9, 9, 9]) [3, 0xe8] =
     [0x88, 0xff, 0, 0, 0, 0, 0, 0, 0, 2, 9, 9, 9, 9, 3, 0xe8] \<and>
   parseWebSocketFrames ascii_text
       ([0x88, 0xff, 0, 0, 0, 0, 0, 0, 0, 2, 9, 9, 9, 9, 3, 0xe8] @ [0x81, 2, 0x68, 0x69]) [] =
     \<lparr>parsed = [''hi''], remaining = []\<rparr>"
proof -
  have f1: "wire_frame 0x89 Len7 (Some [1, 2, 3, 4]) [0x55] = [0x89, 0x81, 1, 2, 3, 4, 0x55]"
    by (simp add: wire_frame_def length_byte_def length_field_def)
  have b2: "be_bytes 2 200 = [0, 200]" by code_simp
  have b8: "be_bytes 8 (Suc (Suc 0)) = [0, 0, 0, 0, 0, 0, 0, 2]" by code_simp
  have f2: "wire_frame 0x82 Len16 None (replicate 200 0) = [0x82, 126, 0, 200] @ replicate 200 0"
    by (simp add: wire_frame_def length_byte_def length_field_def b2)
  have f3: "wire_frame 0x88 Len64 (Some [9, 9, 9, 9]) [3, 0xe8] =
              [0x88, 0xff, 0, 0, 0, 0, 0, 0, 0, 2, 9, 9, 9, 9, 3, 0xe8]"
    by (simp add: wire_frame_def length_byte_def length_field_def b8)
  have ok: "wire_frame_ok Len7 (Some [1, 2, 3, 4]) [0x55]"
           "wire_frame_ok Len16 None (replicate 200 0)"
           "wire_frame_ok Len64 (Some [9, 9, 9, 9]) [3, 0xe8]"
    by (simp_all add: wire_frame_ok_def)
  have op: "(0x89 :: byte) AND 0x0f \<noteq> 0x1" "(0x82 :: byte) AND 0x0f \<noteq> 0x1"
           "(0x88 :: byte) AND 0x0f \<noteq> 0x1"
    by simp_all
  have d: "parseWebSocketFrames ascii_text [0x81, 2, 0x68, 0x69] [] =
             \<lparr>parsed = [''hi''], remaining = []\<rparr>"
    by code_simp
  have r1: "parseWebSocketFrames ascii_text
              (wire_frame 0x89 Len7 (Some [1, 2, 3, 4]) [0x55] @ [0x81, 2, 0x68, 0x69]) [] =
            \<lparr>parsed = [''hi''], remaining = []\<rparr>"
    using non_text_frame_skipped [OF ok(1) op(1), of ascii_text "[]" "[0x81, 2, 0x68, 0x69]" "[]"]
    by (simp only: d)
  have r2: "parseWebSocketFrames ascii_text
              (wire_frame 0x82 Len16 None (replicate 200 0) @ [0x81, 2, 0x68, 0x69]) [] =
            \<lparr>parsed = [''hi''], remaining = []\<rparr>"
    using non_text_frame_skipped [OF ok(2) op(2), of ascii_text "[]" "[0x81, 2, 0x68, 0x69]" "[]"]
    by (simp only: d)
  have r3: "parseWebSocketFrames ascii_text
              (wire_frame 0x88 Len64 (Some [9, 9, 9, 9]) [3, 0xe8] @ [0x81, 2, 0x68, 0x69]) [] =
            \<lparr>parsed = [''hi''], remaining = []\<rparr>"
    using non_text_frame_skipped [OF ok(3) op(3), of ascii_text "[]" "[0x81, 2, 0x68, 0x69]" "[]"]
    by (simp only: d)
  show ?thesis
    using r1 r2 r3 unfolding f1 f2 f3 by (intro conjI refl)
qed

text \<open>
  C10 (nothing duplicated, reordered or fabricated). For every existing buffer and
  data, there are an offset into their concatenation and a list of regions such that:
  the remaining buffer is the suffix of the concatenation from that offset; the
  regions lie in order, without overlap, before that offset; and the returned payloads
  are, in the same order, the texts of the bytes of these regions (each unmasked with
  the four bytes that precede it when the frame is masked). The result is a function of
  the two buffers alone.
\<close>

theorem remaining_suffix_payload_regions:
  "\<exists>offset regions.
     offset \<le> length (existingBuffer @ data) \<and>
     remaining (parseWebSocketFrames dec data existingBuffer) =
       drop offset (existingBuffer @ data) \<and>
     regions_between 0 regions offset \<and>
     parsed (parseWebSocketFrames dec data existingBuffer) =
       map (\<lambda>r. dec (region_bytes (existingBuffer @ data) r)) regions"
proof -
  from parse_loop_regions [of 0 "existingBuffer @ data" dec "[]"] obtain off' rs where
    "parse_loop dec (existingBuffer @ data) 0 [] =
       (map (\<lambda>r. dec (region_bytes (existingBuffer @ data) r)) rs, off')"
    "off' \<le> length (existingBuffer @ data)" "regions_between 0 rs off'"
    by auto
  then show ?thesis
    by (auto simp: parseWebSocketFrames_def intro!: exI [of _ off'] exI [of _ rs])
qed

section \<open>The registry and the handshake: lemmas\<close>

lemma set_delete_ok:
  "distinct xs \<and> length xs \<le> n \<Longrightarrow> distinct (set_delete s xs) \<and> length (set_delete s xs) \<le> n"
  by (auto simp: set_delete_def intro: le_trans [OF length_filter_le])

lemma connections_socket_destroy [simp]: "connections (socket_destroy s w) = connections w"
  by (simp add: socket_destroy_def)

lemma connections_socket_end [simp]: "connections (socket_end s d w) = connections w"
  by (simp add: socket_end_def)

lemma connections_socket_write [simp]: "connections (socket_write s d w) = connections w"
  by (simp add: socket_write_def)

lemma connections_cleanup [simp]:
  "connections (cleanupConnection s w) = set_delete s (connections w)"
  by (simp add: cleanupConnection_def Let_def)

lemma connections_write_frame:
  "connections (write_frame rt s p w) = connections w \<or>
   connections (write_frame rt s p w) = set_delete s (connections w)"
  by (simp add: write_frame_def split: sum.splits)

lemma connections_sendMessage:
  "connections (sendMessage rt s m w) = connections w \<or>
   connections (sendMessage rt s m w) = set_delete s (connections w)"
  using connections_write_frame [of rt s _ w]
  by (auto simp: sendMessage_def split: option.splits)

lemma registry_ok_cleanup: "registry_ok w \<Longrightarrow> registry_ok (cleanupConnection s w)"
  using set_delete_ok [of "connections w" MAX_CONNECTIONS s] by (simp add: registry_ok_def)

lemma registry_ok_sendMessage: "registry_ok w \<Longrightarrow> registry_ok (sendMessage rt s m w)"
  using connections_sendMessage [of rt s m w] set_delete_ok [of "connections w" MAX_CONNECTIONS s]
  by (auto simp: registry_ok_def)

lemma registry_ok_fold:
  assumes "\<And>x w. registry_ok w \<Longrightarrow> registry_ok (f x w)"
  shows "registry_ok w \<Longrightarrow> registry_ok (fold f xs w)"
  by (induction xs arbitrary: w) (auto intro: assms)

lemma registry_ok_handle_message_text:
  "registry_ok w \<Longrightarrow> registry_ok (handle_message_text rt s t w)"
  by (auto simp: handle_message_text_def registry_ok_sendMessage split: option.splits)
     (simp add: registry_ok_def)

lemma registry_ok_on_data: "registry_ok w \<Longrightarrow> registry_ok (on_data rt s d w)"
proof -
  assume ok: "registry_ok w"
  have a: "registry_ok (w\<lparr>buffers := b\<rparr>)" for b using ok by (simp add: registry_ok_def)
  show ?thesis
    unfolding on_data_def Let_def
    by (auto intro!: registry_ok_cleanup ok registry_ok_fold registry_ok_handle_message_text a)
qed

lemma registry_ok_broadcast: "registry_ok w \<Longrightarrow> registry_ok (broadcast rt m w)"
  unfolding broadcast_def
  by (rule registry_ok_fold) (auto intro: registry_ok_sendMessage registry_ok_cleanup)

lemma registry_ok_upgrade:
  "registry_ok w \<Longrightarrow> registry_ok (handleWebSocketUpgrade rt request s w)"
  by (auto simp: handleWebSocketUpgrade_def handleConnection_def registry_ok_def set_add_def
                 Let_def MAX_CONNECTIONS_def
           split: option.splits)

lemma registry_ok_step: "registry_ok w \<Longrightarrow> registry_ok (step rt e w)"
proof (cases e)
  case (Upgrade request s)
  then show "registry_ok w \<Longrightarrow> registry_ok (step rt e w)" by (simp add: registry_ok_upgrade)
next
  case (Data s d)
  then show "registry_ok w \<Longrightarrow> registry_ok (step rt e w)" by (simp add: registry_ok_on_data)
next
  case (Close s)
  then show "registry_ok w \<Longrightarrow> registry_ok (step rt e w)"
    using set_delete_ok [of "connections w" MAX_CONNECTIONS s]
    by (simp add: on_close_def registry_ok_def)
next
  case (SocketError s)
  then show "registry_ok w \<Longrightarrow> registry_ok (step rt e w)"
    by (simp add: on_error_def registry_ok_cleanup)
next
  case (Send s m)
  then show "registry_ok w \<Longrightarrow> registry_ok (step rt e w)" by (simp add: registry_ok_sendMessage)
next
  case (Broadcast m)
  then show "registry_ok w \<Longrightarrow> registry_ok (step rt e w)" by (simp add: registry_ok_broadcast)
next
  case HealthCheck
  then show "registry_ok w \<Longrightarrow> registry_ok (step rt e w)"
    by (auto simp: healthCheck_def registry_ok_def intro: le_trans [OF length_filter_le])
next
  case Stop
  then show "registry_ok w \<Longrightarrow> registry_ok (step rt e w)"
    by (simp add: stop_def registry_ok_def)
qed (simp_all add: registry_ok_def setAuthToken_def)

lemma registry_ok_run: "registry_ok w \<Longrightarrow> registry_ok (run rt evs w)"
  unfolding run_def by (induction evs arbitrary: w) (auto intro: registry_ok_step)

lemma registry_ok_initial: "registry_ok initial_world"
  by (simp add: registry_ok_def initial_world_def)

lemma new_effects_end [simp]: "new_effects w (socket_end s d w) = [SocketEnd s d]"
  by (simp add: new_effects_def socket_end_def)

lemma upgrade_at_ceiling:
  assumes "key_of (headers request ''sec-websocket-key'') = Some key" and "key \<noteq> []"
    and "headers request ''x-claude-code-ide-authorization'' = Some (Single (authToken w))"
    and "authToken w \<noteq> []"
    and "length (connections w) \<ge> MAX_CONNECTIONS"
  shows "handleWebSocketUpgrade rt request s w = socket_end s reply_503 w"
  using assms by (simp add: handleWebSocketUpgrade_def header_falsy_def)

lemma set_delete_subset: "set (set_delete s xs) \<subseteq> set xs"
  by (auto simp: set_delete_def)

lemma sendMessage_subset: "set (connections (sendMessage rt s m w)) \<subseteq> set (connections w)"
  using connections_sendMessage [of rt s m w] set_delete_subset [of s "connections w"] by auto

lemma fold_subset:
  assumes "\<And>x w. set (connections (f x w)) \<subseteq> set (connections w)"
  shows "set (connections (fold f xs w)) \<subseteq> set (connections w)"
proof (induction xs arbitrary: w)
  case Nil
  show ?case by simp
next
  case (Cons x xs)
  have "set (connections (fold f xs (f x w))) \<subseteq> set (connections (f x w))" by (rule Cons.IH)
  also have "\<dots> \<subseteq> set (connections w)" by (rule assms)
  finally show ?case by simp
qed

lemma handle_message_text_subset:
  "set (connections (handle_message_text rt s t w)) \<subseteq> set (connections w)"
  using sendMessage_subset [of rt s message_too_large w]
  by (auto simp: handle_message_text_def split: option.splits)

lemma on_data_subset: "set (connections (on_data rt s d w)) \<subseteq> set (connections w)"
proof (cases "length (buffers w s) + length d > MAX_BUFFER_SIZE")
  case True
  then show ?thesis using set_delete_subset [of s "connections w"] by (simp add: on_data_def)
next
  case False
  let ?w1 = "w\<lparr>buffers := (buffers w)
               (s := remaining (parseWebSocketFrames (toUtf8String rt) d (buffers w s)))\<rparr>"
  have "set (connections (fold (handle_message_text rt s)
          (parsed (parseWebSocketFrames (toUtf8String rt) d (buffers w s))) ?w1))
        \<subseteq> set (connections ?w1)"
    by (rule fold_subset) (rule handle_message_text_subset)
  then show ?thesis using False by (simp add: on_data_def Let_def)
qed

lemma broadcast_subset: "set (connections (broadcast rt m w)) \<subseteq> set (connections w)"
proof -
  have "set (connections (fold (\<lambda>s w'. if \<not> destroyed w' s \<and> writable w' s
            then sendMessage rt s m w' else cleanupConnection s w') xs w)) \<subseteq> set (connections w)"
    for xs
    by (rule fold_subset) (auto dest: subsetD [OF sendMessage_subset] subsetD [OF set_delete_subset])
  then show ?thesis by (simp add: broadcast_def)
qed

lemma upgrade_connections:
  "connections (handleWebSocketUpgrade rt request s w) =
     (if (\<exists>key. key_of (headers request ''sec-websocket-key'') = Some key \<and> key \<noteq> []) \<and>
         headers request ''x-claude-code-ide-authorization'' = Some (Single (authToken w)) \<and>
         authToken w \<noteq> [] \<and> length (connections w) < MAX_CONNECTIONS
      then set_add s (connections w) else connections w)"
  by (auto simp: handleWebSocketUpgrade_def handleConnection_def header_falsy_def Let_def
           split: option.splits)

lemma step_connections:
  "set (connections (step rt e w)) \<subseteq> set (connections w) \<union> credential_checked rt [e] w"
proof (cases e)
  case (Upgrade request s)
  then show ?thesis by (auto simp: upgrade_connections set_add_def split: if_splits)
next
  case (Data s d)
  then show ?thesis using on_data_subset [of rt s d w] by auto
next
  case (Close s)
  then show ?thesis using set_delete_subset [of s "connections w"] by (auto simp: on_close_def)
next
  case (SocketError s)
  then show ?thesis using set_delete_subset [of s "connections w"] by (auto simp: on_error_def)
next
  case (Send s m)
  then show ?thesis using sendMessage_subset [of rt s m w] by auto
next
  case (Broadcast m)
  then show ?thesis using broadcast_subset [of rt m w] by auto
qed (auto simp: setAuthToken_def healthCheck_def stop_def)

lemma run_connections:
  "set (connections (run rt evs w)) \<subseteq> set (connections w) \<union> credential_checked rt evs w"
proof (induction evs arbitrary: w)
  case Nil
  show ?case by (simp add: run_def)
next
  case (Cons e evs)
  have "set (connections (run rt evs (step rt e w)))
          \<subseteq> set (connections (step rt e w)) \<union> credential_checked rt evs (step rt e w)"
    by (rule Cons.IH)
  moreover have "run rt (e # evs) w = run rt evs (step rt e w)" by (simp add: run_def)
  ultimately show ?case using step_connections [of rt e w] by auto
qed

lemma new_effects_append: "effects w' = effects w @ new \<Longrightarrow> new_effects w w' = new"
  by (simp add: new_effects_def)

lemma cleanup_effects:
  "\<exists>new. effects (cleanupConnection s w) = effects w @ new \<and> filter is_dispatch new = []"
  by (simp add: cleanupConnection_def socket_destroy_def Let_def)

lemma write_frame_effects:
  "\<exists>new. effects (write_frame rt s p w) = effects w @ new \<and> filter is_dispatch new = []"
  using cleanup_effects [of s w]
  by (auto simp: write_frame_def socket_write_def split: sum.splits)

lemma sendMessage_effects:
  "\<exists>new. effects (sendMessage rt s m w) = effects w @ new \<and> filter is_dispatch new = []"
  using cleanup_effects [of s w] write_frame_effects [of rt s _ w]
  by (auto simp: sendMessage_def split: option.splits)

lemma sendMessage_open:
  assumes "\<not> destroyed w s" and "writable w s"
    and "JSON_stringify rt m = Some payload" and "length payload \<le> MAX_MESSAGE_SIZE"
    and "createWebSocketFrame (fromUtf8 rt) payload = Inr frame"
  shows "sendMessage rt s m w = socket_write s (Bytes frame) w"
  using assms by (simp add: sendMessage_def write_frame_def)

lemma handle_message_text_effects:
  "\<exists>new. effects (handle_message_text rt s t w) = effects w @ new \<and>
         (\<forall>e \<in> set new. is_dispatch e \<longrightarrow>
            length t \<le> MAX_MESSAGE_SIZE \<and> (\<exists>m. JSON_parse rt t = Some m \<and> e = OnMessage m s))"
proof (cases "length t > MAX_MESSAGE_SIZE")
  case True
  from sendMessage_effects [of rt s message_too_large w] obtain new where
    n: "effects (sendMessage rt s message_too_large w) = effects w @ new"
       "filter is_dispatch new = []" by blast
  then have "\<forall>e \<in> set new. \<not> is_dispatch e" by (simp add: filter_empty_conv)
  with n True show ?thesis by (auto simp: handle_message_text_def)
next
  case False
  then show ?thesis by (auto simp: handle_message_text_def split: option.splits)
qed

lemma fold_handle_effects:
  "\<exists>new. effects (fold (handle_message_text rt s) ts w) = effects w @ new \<and>
         (\<forall>e \<in> set new. is_dispatch e \<longrightarrow>
            (\<exists>t \<in> set ts. length t \<le> MAX_MESSAGE_SIZE \<and>
               (\<exists>m. JSON_parse rt t = Some m \<and> e = OnMessage m s)))"
proof (induction ts arbitrary: w)
  case Nil
  show ?case by simp
next
  case (Cons t ts)
  from handle_message_text_effects [of rt s t w] obtain n1 where
    a: "effects (handle_message_text rt s t w) = effects w @ n1"
       "\<forall>e \<in> set n1. is_dispatch e \<longrightarrow>
            length t \<le> MAX_MESSAGE_SIZE \<and> (\<exists>m. JSON_parse rt t = Some m \<and> e = OnMessage m s)"
    by blast
  from Cons.IH [of "handle_message_text rt s t w"] obtain n2 where
    b: "effects (fold (handle_message_text rt s) ts (handle_message_text rt s t w)) =
          effects (handle_message_text rt s t w) @ n2"
       "\<forall>e \<in> set n2. is_dispatch e \<longrightarrow>
            (\<exists>t \<in> set ts. length t \<le> MAX_MESSAGE_SIZE \<and>
               (\<exists>m. JSON_parse rt t = Some m \<and> e = OnMessage m s))"
    by blast
  have "effects (fold (handle_message_text rt s) (t # ts) w) = effects w @ (n1 @ n2)"
    using a(1) b(1) by simp
  moreover have "\<forall>e \<in> set (n1 @ n2). is_dispatch e \<longrightarrow>
            (\<exists>t' \<in> set (t # ts). length t' \<le> MAX_MESSAGE_SIZE \<and>
               (\<exists>m. JSON_parse rt t' = Some m \<and> e = OnMessage m s))"
    using a(2) b(2) by auto
  ultimately show ?case by blast
qed

lemma on_data_dispatches_small_only:
  assumes "OnMessage m s' \<in> set (new_effects w (on_data rt s d w))"
  shows "\<exists>t. length t \<le> MAX_MESSAGE_SIZE \<and> JSON_parse rt t = Some m \<and> s' = s \<and>
             t \<in> set (parsed (parseWebSocketFrames (toUtf8String rt) d (buffers w s)))"
proof (cases "length (buffers w s) + length d > MAX_BUFFER_SIZE")
  case True
  from cleanup_effects [of s w] obtain new where
    "effects (cleanupConnection s w) = effects w @ new" "filter is_dispatch new = []" by blast
  then have "\<forall>e \<in> set (new_effects w (cleanupConnection s w)). \<not> is_dispatch e"
    by (simp add: new_effects_append filter_empty_conv)
  with assms True show ?thesis by (auto simp: on_data_def)
next
  case False
  let ?r = "parseWebSocketFrames (toUtf8String rt) d (buffers w s)"
  let ?w1 = "w\<lparr>buffers := (buffers w)(s := remaining ?r)\<rparr>"
  from fold_handle_effects [of rt s "parsed ?r" ?w1] obtain new where
    n: "effects (fold (handle_message_text rt s) (parsed ?r) ?w1) = effects ?w1 @ new"
       "\<forall>e \<in> set new. is_dispatch e \<longrightarrow>
            (\<exists>t \<in> set (parsed ?r). length t \<le> MAX_MESSAGE_SIZE \<and>
               (\<exists>m. JSON_parse rt t = Some m \<and> e = OnMessage m s))"
    by blast
  have "new_effects w (on_data rt s d w) = new"
    using False n(1) by (simp add: on_data_def Let_def new_effects_def)
  with assms n(2) show ?thesis by fastforce
qed

lemma full_world_connections: "connections full_world = [0, 1, 2, 3, 4, 5, 6, 7, 8, 9]"
  by (simp add: full_world_def ten_upgrades_def run_def sample_request_def
      handleWebSocketUpgrade_def key_of_def header_falsy_def initial_world_def setAuthToken_def
      handleConnection_def socket_write_def set_add_def MAX_CONNECTIONS_def upt_rec)

lemma full_world_token: "authToken full_world = ''secret''"
  by (simp add: full_world_def ten_upgrades_def run_def sample_request_def
      handleWebSocketUpgrade_def key_of_def header_falsy_def initial_world_def setAuthToken_def
      handleConnection_def socket_write_def set_add_def MAX_CONNECTIONS_def upt_rec)

lemma good_request_headers:
  "key_of (headers good_request ''sec-websocket-key'') = Some ''a2V5''"
  "headers good_request ''x-claude-code-ide-authorization'' = Some (Single ''secret'')"
  by (simp_all add: good_request_def sample_request_def key_of_def)

lemma sendMessage_one_frame:
  assumes "\<not> destroyed w s" and "writable w s"
    and "JSON_stringify rt m = Some payload"
    and "JSON_stringify rt (response_too_large m) = Some errorPayload"
    and "createWebSocketFrame (fromUtf8 rt) payload = Inr frame"
    and "createWebSocketFrame (fromUtf8 rt) errorPayload = Inr errorFrame"
  shows "new_effects w (sendMessage rt s m w) =
           [SocketWrite s (Bytes (if length payload > MAX_MESSAGE_SIZE then errorFrame else frame))]"
    and "m_id (response_too_large m) = m_id m"
  using assms
  by (simp_all add: sendMessage_def write_frame_def new_effects_def socket_write_def
                    response_too_large_def)

lemma regions_between_le: "regions_between lo rs hi \<Longrightarrow> lo \<le> hi"
proof (induction rs arbitrary: lo)
  case Nil
  then show ?case by simp
next
  case (Cons r rs)
  obtain a b c where r: "r = (a, b, c)" by (cases r)
  have "a + b \<le> hi" using Cons.IH [of "a + b"] Cons.prems r by simp
  moreover have "lo \<le> a" using Cons.prems r by (simp split: if_splits)
  ultimately show ?case by simp
qed

lemma region_inside:
  "regions_between lo rs hi \<Longrightarrow> (start, len, msk) \<in> set rs \<Longrightarrow> lo \<le> start \<and> start + len \<le> hi"
proof (induction rs arbitrary: lo)
  case Nil
  then show ?case by simp
next
  case (Cons r rs)
  obtain a b c where r: "r = (a, b, c)" by (cases r)
  show ?case
  proof (cases "(start, len, msk) = r")
    case True
    have "regions_between (a + b) rs hi" using Cons.prems(1) r by simp
    then have "a + b \<le> hi" by (rule regions_between_le)
    then show ?thesis using Cons.prems(1) True r by (auto split: if_splits)
  next
    case False
    then have "(start, len, msk) \<in> set rs" using Cons.prems(2) by simp
    moreover have "regions_between (a + b) rs hi" using Cons.prems(1) r by simp
    ultimately have "a + b \<le> start \<and> start + len \<le> hi" by (rule Cons.IH [rotated])
    then show ?thesis using Cons.prems(1) r by (auto split: if_splits)
  qed
qed

lemma length_region_bytes: "length (region_bytes buf (start, len, msk)) \<le> len"
  by (simp add: region_bytes_def unmask_def subarray_def)

lemma oversized_text_unreachable:
  assumes "\<And>bs. length (toUtf8String rt bs) \<le> length bs"
    and "length (buffers w s) + length d \<le> MAX_BUFFER_SIZE"
    and "t \<in> set (parsed (parseWebSocketFrames (toUtf8String rt) d (buffers w s)))"
  shows "length t \<le> MAX_BUFFER_SIZE \<and> \<not> length t > MAX_MESSAGE_SIZE"
proof -
  let ?full = "buffers w s @ d"
  from parse_loop_regions [of 0 ?full "toUtf8String rt" "[]"] obtain off rs where
    p: "parse_loop (toUtf8String rt) ?full 0 [] =
          (map (\<lambda>r. toUtf8String rt (region_bytes ?full r)) rs, off)"
    and le: "off \<le> length ?full" and rb: "regions_between 0 rs off"
    by auto
  from assms(3) p obtain r where r: "r \<in> set rs" "t = toUtf8String rt (region_bytes ?full r)"
    by (auto simp: parseWebSocketFrames_def)
  obtain start len msk where rr: "r = (start, len, msk)" by (cases r)
  have "start + len \<le> off" using region_inside [OF rb] r(1) rr by blast
  then have "len \<le> length ?full" using le by simp
  moreover have "length t \<le> len"
    using assms(1) [of "region_bytes ?full r"] length_region_bytes [of ?full start len msk] r(2) rr
    by simp
  ultimately have "length t \<le> MAX_BUFFER_SIZE" using assms(2) by simp
  then show ?thesis by (simp add: MAX_BUFFER_SIZE_def MAX_MESSAGE_SIZE_def)
qed

text \<open>The earlier revision: its upgrade handler registers an eleventh connection, and
  its data handler passes a decoded message of any length to \<open>onMessage\<close>.\<close>

lemma legacy_upgrade_has_no_ceiling:
  "connections (handleWebSocketUpgrade_v1 sample_runtime good_request 10 full_world) =
     [0, 1, 2, 3, 4, 5, 6, 7, 8, 9, 10]"
  by (simp add: handleWebSocketUpgrade_v1_def good_request_headers header_falsy_def
                full_world_token handleConnection_def set_add_def full_world_connections
                good_request_def sample_request_def)

lemma legacy_data_handler_has_no_size_check:
  assumes "createWebSocketFrame (fromUtf8 rt) messageText = Inr frame"
    and "toUtf8String rt (fromUtf8 rt messageText) = messageText"
    and "JSON_parse rt messageText = Some message"
    and "buffers w s = []"
  shows "new_effects w (on_data_v1 rt s frame w) = [OnMessage message s]"
proof -
  have "parse_loop (toUtf8String rt) frame 0 [] = ([messageText], length frame)"
    using parse_created_frame [OF assms(1), of "toUtf8String rt" "[]" "[]"] assms(2)
    by (simp add: parse_loop_end)
  then have "parseWebSocketFrames (toUtf8String rt) frame [] =
               \<lparr>parsed = [messageText], remaining = []\<rparr>"
    by (simp add: parseWebSocketFrames_def)
  then show ?thesis
    using assms(3,4) by (simp add: on_data_v1_def new_effects_def)
qed

section \<open>The registry and the handshake: properties\<close>

text \<open>
  C2 (connection ceiling). In every state that the server reaches from its initial
  state by any sequence of events (upgrade requests, data, close and error events,
  sends, broadcasts, health checks, stop, changes of the credential and of socket
  flags), the registry holds at most 10 connections. When it holds 10, a further
  upgrade request that carries a key and the credential is answered with the
  \<open>503 Service Unavailable\<close> reply and nothing else (no handshake response is written),
  and the registry is left as it was, so the rejected socket is not added.
\<close>

theorem connection_ceiling:
  assumes "w = run rt evs initial_world"
  shows "getConnectionCount w \<le> 10 \<and>
         (getConnectionCount w = 10 \<and>
          key_of (headers request ''sec-websocket-key'') = Some key \<and> key \<noteq> [] \<and>
          headers request ''x-claude-code-ide-authorization'' = Some (Single (authToken w)) \<and>
          authToken w \<noteq> [] \<longrightarrow>
            new_effects w (handleWebSocketUpgrade rt request s w) = [SocketEnd s reply_503] \<and>
            connections (handleWebSocketUpgrade rt request s w) = connections w)"
proof -
  have "registry_ok w"
    unfolding assms using registry_ok_initial by (rule registry_ok_run)
  then have le: "getConnectionCount w \<le> 10"
    by (simp add: registry_ok_def getConnectionCount_def MAX_CONNECTIONS_def)
  show ?thesis
    using le upgrade_at_ceiling [of request key w rt s]
    by (auto simp: getConnectionCount_def MAX_CONNECTIONS_def)
qed

theorem connection_ceiling_witness:
  "full_world = run sample_runtime ten_upgrades initial_world \<and>
   getConnectionCount full_world = 10 \<and>
   key_of (headers good_request ''sec-websocket-key'') = Some ''a2V5'' \<and>
   headers good_request ''x-claude-code-ide-authorization'' = Some (Single (authToken full_world)) \<and>
   new_effects full_world (handleWebSocketUpgrade sample_runtime good_request 10 full_world) =
     [SocketEnd 10 reply_503] \<and>
   connections (handleWebSocketUpgrade sample_runtime good_request 10 full_world) =
     [0, 1, 2, 3, 4, 5, 6, 7, 8, 9]"
proof -
  have n: "getConnectionCount full_world = 10"
    by (simp add: getConnectionCount_def full_world_connections)
  have k: "''a2V5'' \<noteq> []" by simp
  have t: "authToken full_world \<noteq> []" by (simp add: full_world_token)
  have a: "headers good_request ''x-claude-code-ide-authorization'' =
             Some (Single (authToken full_world))"
    by (simp add: good_request_headers full_world_token)
  show ?thesis
    using connection_ceiling [OF full_world_def, of good_request "''a2V5''" 10]
          n k t a good_request_headers(1) full_world_connections
    by (simp add: full_world_def)
qed

text \<open>
  C3 as the claim states it fails at two inputs. A request with neither a key nor an
  authorization header is answered with \<open>400 Bad Request\<close>, not with a 401, because the
  key is checked first. A request with a key and the right credential that arrives
  when ten connections are registered is answered with \<open>503\<close>; no handshake is written
  and its socket is not added.
\<close>

theorem upgrade_auth_counterexample:
  "headers (sample_request None None) ''x-claude-code-ide-authorization'' = None \<and>
   new_effects token_world
     (handleWebSocketUpgrade sample_runtime (sample_request None None) 0 token_world) =
     [SocketEnd 0 reply_400] \<and>
   reply_400 \<noteq> reply_401_missing \<and> reply_400 \<noteq> reply_401_invalid \<and>
   key_of (headers good_request ''sec-websocket-key'') = Some ''a2V5'' \<and>
   headers good_request ''x-claude-code-ide-authorization'' = Some (Single (authToken full_world)) \<and>
   new_effects full_world (handleWebSocketUpgrade sample_runtime good_request 10 full_world) =
     [SocketEnd 10 reply_503] \<and>
   10 \<notin> set (connections (handleWebSocketUpgrade sample_runtime good_request 10 full_world))"
proof -
  have a: "handleWebSocketUpgrade sample_runtime (sample_request None None) 0 token_world =
           socket_end 0 reply_400 token_world"
    by (simp add: handleWebSocketUpgrade_def sample_request_def key_of_def)
  have b: "handleWebSocketUpgrade sample_runtime good_request 10 full_world =
           socket_end 10 reply_503 full_world"
    by (rule upgrade_at_ceiling [where key = "''a2V5''"])
       (simp_all add: good_request_headers full_world_token full_world_connections
                      MAX_CONNECTIONS_def)
  have c: "reply_400 \<noteq> reply_401_missing" "reply_400 \<noteq> reply_401_invalid"
    by (simp_all add: reply_400_def reply_401_missing_def reply_401_invalid_def)
  show ?thesis
    unfolding a b
    using c by (simp add: sample_request_def good_request_headers full_world_token
                          full_world_connections)
qed

text \<open>
  C3, amended. For every upgrade request that carries a non-empty
  \<open>sec-websocket-key\<close>: if the authorization header is absent or empty, or is not the one
  value equal to the server's credential, the server answers with a
  \<open>401 Unauthorized\<close> reply (the missing-header text in the first case, the
  invalid-token text in the second) and the registry is unchanged; if the header
  equals the credential, the credential is not empty and fewer than \<open>MAX_CONNECTIONS\<close>
  connections are registered, the server writes the \<open>101\<close> handshake, calls
  \<open>onConnection\<close> and adds the socket. In every state reached from the initial state,
  every registered connection belongs to an upgrade request whose header was equal to
  the credential.
\<close>

theorem upgrade_auth_outcomes:
  assumes "key_of (headers request ''sec-websocket-key'') = Some key" and "key \<noteq> []"
  shows "(header_falsy (headers request ''x-claude-code-ide-authorization'') \<or>
          headers request ''x-claude-code-ide-authorization'' \<noteq> Some (Single (authToken w)) \<longrightarrow>
            new_effects w (handleWebSocketUpgrade rt request s w) =
              [SocketEnd s (if header_falsy (headers request ''x-claude-code-ide-authorization'')
                            then reply_401_missing else reply_401_invalid)] \<and>
            connections (handleWebSocketUpgrade rt request s w) = connections w) \<and>
         (headers request ''x-claude-code-ide-authorization'' = Some (Single (authToken w)) \<and>
          authToken w \<noteq> [] \<and> length (connections w) < MAX_CONNECTIONS \<longrightarrow>
            new_effects w (handleWebSocketUpgrade rt request s w) =
              [SocketWrite s (Text (responseHeaders (sha1_base64 rt (key @ websocket_guid)))),
               OnConnection s] \<and>
            connections (handleWebSocketUpgrade rt request s w) = set_add s (connections w)) \<and>
         set (connections (run rt evs initial_world)) \<subseteq> credential_checked rt evs initial_world"
proof -
  have reg: "set (connections (run rt evs initial_world)) \<subseteq> credential_checked rt evs initial_world"
    using run_connections [of rt evs initial_world] by (simp add: initial_world_def)
  show ?thesis
    using assms reg
    by (auto simp: handleWebSocketUpgrade_def handleConnection_def header_falsy_def Let_def
                   new_effects_def socket_end_def socket_write_def)
qed

theorem upgrade_auth_outcomes_witness:
  "new_effects token_world
     (handleWebSocketUpgrade sample_runtime (sample_request (Some ''a2V5'') None) 0 token_world) =
     [SocketEnd 0 reply_401_missing] \<and>
   connections
     (handleWebSocketUpgrade sample_runtime (sample_request (Some ''a2V5'') None) 0 token_world) = [] \<and>
   new_effects token_world
     (handleWebSocketUpgrade sample_runtime (sample_request (Some ''a2V5'') (Some ''guess'')) 0
        token_world) = [SocketEnd 0 reply_401_invalid] \<and>
   connections
     (handleWebSocketUpgrade sample_runtime (sample_request (Some ''a2V5'') (Some ''guess'')) 0
        token_world) = [] \<and>
   new_effects token_world (handleWebSocketUpgrade sample_runtime good_request 0 token_world) =
     [SocketWrite 0 (Text (responseHeaders (''a2V5'' @ websocket_guid))), OnConnection 0] \<and>
   connections (handleWebSocketUpgrade sample_runtime good_request 0 token_world) = [0] \<and>
   set (connections full_world) \<subseteq> credential_checked sample_runtime ten_upgrades initial_world"
proof -
  have k: "key_of (headers (sample_request (Some ''a2V5'') auth) ''sec-websocket-key'') =
             Some ''a2V5''" for auth
    by (simp add: sample_request_def key_of_def)
  have ne: "''a2V5'' \<noteq> []" by simp
  have w: "authToken token_world = ''secret''" "connections token_world = []"
    by (simp_all add: token_world_def setAuthToken_def initial_world_def)
  have h: "headers (sample_request (Some ''a2V5'') auth) ''x-claude-code-ide-authorization'' =
             map_option Single auth" for auth
    by (simp add: sample_request_def)
  show ?thesis
    using upgrade_auth_outcomes [OF k [of None] ne, of token_world sample_runtime 0 "[]"]
          upgrade_auth_outcomes [OF k [of "Some ''guess''"] ne, of token_world sample_runtime 0 "[]"]
          upgrade_auth_outcomes [OF k [of "Some ''secret''"] ne,
            of token_world sample_runtime 0 ten_upgrades]
    by (simp add: h w header_falsy_def good_request_def MAX_CONNECTIONS_def set_add_def
                  sample_runtime_def full_world_def)
qed

text \<open>The body of the data handler's loop over the decoded payloads, taken alone: for a
  text longer than \<open>MAX_MESSAGE_SIZE\<close> it calls \<open>sendMessage\<close> with the \<open>-32600\<close> error and
  does not call \<open>onMessage\<close>.\<close>

lemma loop_body_rejects_oversized:
  assumes "length messageText > MAX_MESSAGE_SIZE"
  shows "handle_message_text rt s messageText w = sendMessage rt s message_too_large w \<and>
         m_error message_too_large =
           Some \<lparr>e_code = - 32600, e_message = ''Message too large''\<rparr> \<and>
         filter is_dispatch (new_effects w (handle_message_text rt s messageText w)) = [] \<and>
         (\<not> destroyed w s \<and> writable w s \<and>
          JSON_stringify rt message_too_large = Some payload \<and>
          length payload \<le> MAX_MESSAGE_SIZE \<and>
          createWebSocketFrame (fromUtf8 rt) payload = Inr frame \<longrightarrow>
            new_effects w (handle_message_text rt s messageText w) = [SocketWrite s (Bytes frame)])"
proof -
  have eq: "handle_message_text rt s messageText w = sendMessage rt s message_too_large w"
    using assms by (simp add: handle_message_text_def)
  from sendMessage_effects [of rt s message_too_large w] obtain new where
    "effects (sendMessage rt s message_too_large w) = effects w @ new"
    "filter is_dispatch new = []" by blast
  then have none: "filter is_dispatch (new_effects w (sendMessage rt s message_too_large w)) = []"
    by (simp add: new_effects_append)
  have "new_effects w (sendMessage rt s message_too_large w) = [SocketWrite s (Bytes frame)]"
    if "\<not> destroyed w s" "writable w s" "JSON_stringify rt message_too_large = Some payload"
       "length payload \<le> MAX_MESSAGE_SIZE" "createWebSocketFrame (fromUtf8 rt) payload = Inr frame"
    using sendMessage_open [OF that] by (simp add: new_effects_def socket_write_def)
  then show ?thesis
    unfolding eq using none by (simp add: message_too_large_def)
qed




lemma fold_small_texts_effects:
  assumes "\<forall>t \<in> set ts. \<not> length t > MAX_MESSAGE_SIZE"
  shows "\<exists>new. effects (fold (handle_message_text rt s) ts w) = effects w @ new \<and>
               (\<forall>e \<in> set new. is_dispatch e)"
  using assms
proof (induction ts arbitrary: w)
  case Nil
  show ?case by simp
next
  case (Cons t ts)
  have small: "\<not> length t > MAX_MESSAGE_SIZE" using Cons.prems by simp
  then obtain n1 where
    a: "effects (handle_message_text rt s t w) = effects w @ n1" "\<forall>e \<in> set n1. is_dispatch e"
    by (cases "JSON_parse rt t") (auto simp: handle_message_text_def)
  from Cons.IH [of "handle_message_text rt s t w"] Cons.prems obtain n2 where
    b: "effects (fold (handle_message_text rt s) ts (handle_message_text rt s t w)) =
          effects (handle_message_text rt s t w) @ n2" "\<forall>e \<in> set n2. is_dispatch e"
    by auto
  have "effects (fold (handle_message_text rt s) (t # ts) w) = effects w @ (n1 @ n2)"
    using a(1) b(1) by simp
  moreover have "\<forall>e \<in> set (n1 @ n2). is_dispatch e" using a(2) b(2) by auto
  ultimately show ?case by blast
qed

lemma read_handler_sends_nothing:
  assumes "\<And>bs. length (toUtf8String rt bs) \<le> length bs"
  shows "\<forall>e \<in> set (new_effects w (on_data rt s d w)). is_dispatch e \<or> e = SocketDestroy s"
proof (cases "length (buffers w s) + length d > MAX_BUFFER_SIZE")
  case True
  then have "on_data rt s d w = cleanupConnection s w" by (simp add: on_data_def)
  then show ?thesis
    by (simp add: cleanupConnection_def Let_def socket_destroy_def new_effects_def)
next
  case False
  let ?r = "parseWebSocketFrames (toUtf8String rt) d (buffers w s)"
  let ?w1 = "w\<lparr>buffers := (buffers w)(s := remaining ?r)\<rparr>"
  have small: "\<forall>t \<in> set (parsed ?r). \<not> length t > MAX_MESSAGE_SIZE"
    using oversized_text_unreachable [OF assms, of w s d] False by auto
  from fold_small_texts_effects [OF small, of rt s ?w1] obtain new where
    n: "effects (fold (handle_message_text rt s) (parsed ?r) ?w1) = effects ?w1 @ new"
       "\<forall>e \<in> set new. is_dispatch e"
    by blast
  have "new_effects w (on_data rt s d w) = new"
    using False n(1) by (simp add: on_data_def Let_def new_effects_def)
  then show ?thesis using n(2) by simp
qed

text \<open>In whatever chunks a created frame longer than \<open>MAX_BUFFER_SIZE\<close> reaches an open
  connection with an empty buffer, the data events make no call at all until one of
  them destroys the socket and removes it from the registry.\<close>

lemma partial_created_frame_kept:
  assumes "createWebSocketFrame enc s = Inr frame" and "frame = c1 @ c2" and "c2 \<noteq> []"
    and that: "c1' @ c2' = c1"
  shows "parseWebSocketFrames dec c2' c1' = \<lparr>parsed = [], remaining = c1\<rparr>"
proof -
  from created_frame_header [OF assms(1)] obtain hdr where
    f: "frame = hdr @ enc s" and
    h: "\<And>rest. read_header (hdr @ rest) 0 = Some (text_header (length hdr) (length (enc s)))"
    by blast
  have whole: "read_header (c1 @ c2) 0 = Some (text_header (length hdr) (length (enc s)))"
    using h [of "enc s"] f assms(2) by simp
  have "parse_loop dec c1 0 [] = ([], 0)"
  proof (cases "read_header c1 0")
    case None
    then show ?thesis by (rule parse_loop_stop_header)
  next
    case (Some h1)
    then have "read_header (c1 @ c2) 0 = Some h1" by (rule read_header_extend)
    with whole have "h1 = text_header (length hdr) (length (enc s))" by simp
    then have "payloadOffset h1 + payloadLength h1 = length frame"
      by (simp add: text_header_def f)
    then have "length c1 < payloadOffset h1 + payloadLength h1"
      using assms(2,3) by simp
    with Some show ?thesis by (rule parse_loop_stop_payload)
  qed
  then show ?thesis
    using that by (simp add: parseWebSocketFrames_def)
qed

lemma long_frame_in_chunks:
  assumes frame: "createWebSocketFrame (fromUtf8 rt) messageText = Inr frame"
    and long: "length frame > MAX_BUFFER_SIZE"
  shows "pre @ concat chunks = frame \<Longrightarrow> buffers w s = pre \<Longrightarrow>
         length pre \<le> MAX_BUFFER_SIZE \<Longrightarrow> \<not> destroyed w s \<Longrightarrow>
         \<exists>k \<le> length chunks.
           effects (fold (on_data rt s) (take k chunks) w) = effects w @ [SocketDestroy s] \<and>
           s \<notin> set (connections (fold (on_data rt s) (take k chunks) w)) \<and>
           (\<forall>j < k. effects (fold (on_data rt s) (take j chunks) w) = effects w)"
proof (induction chunks arbitrary: pre w)
  case Nil
  then show ?case using long by simp
next
  case (Cons c cs)
  show ?case
  proof (cases "length pre + length c > MAX_BUFFER_SIZE")
    case True
    then have od: "on_data rt s c w = cleanupConnection s w"
      using Cons.prems(2) by (simp add: on_data_def)
    have e: "effects (cleanupConnection s w) = effects w @ [SocketDestroy s]"
      using Cons.prems(4) by (simp add: cleanupConnection_def Let_def socket_destroy_def)
    have n: "s \<notin> set (connections (cleanupConnection s w))"
      by (simp add: set_delete_def)
    have "effects (fold (on_data rt s) (take 1 (c # cs)) w) = effects w @ [SocketDestroy s] \<and>
          s \<notin> set (connections (fold (on_data rt s) (take 1 (c # cs)) w)) \<and>
          (\<forall>j < 1. effects (fold (on_data rt s) (take j (c # cs)) w) = effects w)"
      using od e n by simp
    moreover have "(1 :: nat) \<le> length (c # cs)" by simp
    ultimately show ?thesis by blast
  next
    case False
    let ?pre = "pre @ c"
    have rest: "?pre @ concat cs = frame" using Cons.prems(1) by simp
    have "length ?pre < length frame" using False long by simp
    then have ne: "concat cs \<noteq> []" using rest by auto
    have p: "parseWebSocketFrames (toUtf8String rt) c pre = \<lparr>parsed = [], remaining = ?pre\<rparr>"
      using partial_created_frame_kept [OF frame rest [symmetric] ne refl] by simp
    let ?w1 = "w\<lparr>buffers := (buffers w)(s := ?pre)\<rparr>"
    have od: "on_data rt s c w = ?w1"
      using False Cons.prems(2) p by (simp add: on_data_def Let_def)
    have "\<exists>k \<le> length cs.
           effects (fold (on_data rt s) (take k cs) ?w1) = effects ?w1 @ [SocketDestroy s] \<and>
           s \<notin> set (connections (fold (on_data rt s) (take k cs) ?w1)) \<and>
           (\<forall>j < k. effects (fold (on_data rt s) (take j cs) ?w1) = effects ?w1)"
      using False Cons.prems(4) by (intro Cons.IH [OF rest]) simp_all
    then obtain k where k: "k \<le> length cs"
      "effects (fold (on_data rt s) (take k cs) ?w1) = effects w @ [SocketDestroy s]"
      "s \<notin> set (connections (fold (on_data rt s) (take k cs) ?w1))"
      "\<forall>j < k. effects (fold (on_data rt s) (take j cs) ?w1) = effects w"
      by auto
    have "effects (fold (on_data rt s) (take (Suc k) (c # cs)) w) = effects w @ [SocketDestroy s] \<and>
          s \<notin> set (connections (fold (on_data rt s) (take (Suc k) (c # cs)) w)) \<and>
          (\<forall>j < Suc k. effects (fold (on_data rt s) (take j (c # cs)) w) = effects w)"
      using k(2,3,4) od by (auto simp: less_Suc_eq_0_disj)
    moreover have "Suc k \<le> length (c # cs)" using k(1) by simp
    ultimately show ?thesis by blast
  qed
qed


section \<open>The dispatcher: properties\<close>

lemma handleFileRead_shape:
  "(\<exists>e. handleFileRead app message s = Inl e) \<or>
   (\<exists>res. handleFileRead app message s = Inr [(s, response (property message ''id'') res)])"
  by (auto simp: handleFileRead_def Let_def split: option.splits abstract_file.splits sum.splits)

lemma handleWorkspaceSelection_shape:
  "(\<exists>e. handleWorkspaceSelection app message s = Inl e) \<or>
   (\<exists>res. handleWorkspaceSelection app message s =
            Inr [(s, response (property message ''id'') res)])"
  by (auto simp: handleWorkspaceSelection_def split: option.splits)

text \<open>What the try block can yield.\<close>
lemma dispatch_shape:
  "(\<exists>e. dispatch app message s = Inl e) \<or>
   (dispatch app message s = Inr [] \<and>
      (\<not> truthy (property message ''method'') \<or>
       property message ''method'' = Some (JStr ''initialized''))) \<or>
   (\<exists>res. dispatch app message s = Inr [(s, response (property message ''id'') res)] \<and>
      recognised (property message ''method'')) \<or>
   (dispatch app message s =
      Inr [(s, error_response (property message ''id'') (- 32601) ''Method not found'')] \<and>
    truthy (property message ''method'') \<and> \<not> recognised (property message ''method''))"
  using handleFileRead_shape [of app message s] handleWorkspaceSelection_shape [of app message s]
  by (auto simp: dispatch_def recognised_def)

text \<open>The \<open>catch\<close> block tests \<open>message.id\<close> for truthiness: a request whose id is \<open>0\<close>
  and whose handler throws gets no response.\<close>

lemma falsy_id_failure_gets_no_response:
  "property read_request_id0 ''id'' = Some (JNum 0) \<and>
   dispatch sample_app read_request_id0 0 = Inl (Error ''File path is required'') \<and>
   sent (handleMessage sample_app read_request_id0 0) = []"
  by (simp add: read_request_id0_def handleMessage_def dispatch_def property_def
                handleFileRead_def)

text \<open>A method that cannot be converted to text makes the \<open>try\<close> block throw before the
  \<open>switch\<close>: without an id, or with the id \<open>0\<close>, nothing is sent.\<close>

lemma unconvertible_method_gets_no_response:
  "dispatch sample_app odd_method_notification 0 = Inl conversion_error \<and>
   sent (handleMessage sample_app odd_method_notification 0) = [] \<and>
   dispatch sample_app odd_method_request_id0 0 = Inl conversion_error \<and>
   sent (handleMessage sample_app odd_method_request_id0 0) = []"
  by (simp add: odd_method_notification_def odd_method_request_id0_def handleMessage_def
                dispatch_def property_def)

text \<open>
  C5 as the claim states it fails: a message without an id whose method is unknown is
  answered with the \<open>-32601\<close> error. The \<open>default\<close> case of the dispatcher sends it whether
  or not the message has an id.
\<close>

theorem notification_error_counterexample:
  "property bogus_notification ''id'' = None \<and>
   sent (handleMessage sample_app bogus_notification 0) =
     [(0, error_response None (- 32601) ''Method not found'')] \<and>
   m_error (error_response None (- 32601) ''Method not found'') =
     Some \<lparr>e_code = - 32601, e_message = ''Method not found''\<rparr>"
  by (simp add: bogus_notification_def handleMessage_def dispatch_def property_def
                error_response_def)

text \<open>
  C5, amended. For every dispatched message without an id: when its method is one of
  the five recognised ones, or it has no method, no call of \<open>sendMessage\<close> carries an
  error; when its method is unknown and can be converted to text (as every string,
  number and boolean can), the one call is the \<open>-32601\<close> "Method not found" error,
  without an id. When a handler throws, the dispatcher sends the \<open>-32603\<close> error
  with the message's id and the text of the failure if the id is truthy, and sends
  nothing if the message has no id.
\<close>

theorem notification_error_responses:
  "(property message ''id'' = None \<and>
    (recognised (property message ''method'') \<or> \<not> truthy (property message ''method'')) \<longrightarrow>
      (\<forall>call \<in> set (sent (handleMessage app message s)). m_error (snd call) = None)) \<and>
   (property message ''id'' = None \<and> truthy (property message ''method'') \<and>
    \<not> recognised (property message ''method'') \<and>
    \<not> conversion_throws (the (property message ''method'')) \<longrightarrow>
      sent (handleMessage app message s) =
        [(s, error_response None (- 32601) ''Method not found'')]) \<and>
   (dispatch app message s = Inl e \<and> truthy (property message ''id'') \<longrightarrow>
      sent (handleMessage app message s) =
        [(s, error_response (property message ''id'') (- 32603) (error_message e))]) \<and>
   (dispatch app message s = Inl e \<and> property message ''id'' = None \<longrightarrow>
      sent (handleMessage app message s) = [])"
proof -
  have a: "\<forall>call \<in> set (sent (handleMessage app message s)). m_error (snd call) = None"
    if "property message ''id'' = None"
       "recognised (property message ''method'') \<or> \<not> truthy (property message ''method'')"
    using dispatch_shape [of app message s] that
    by (auto simp: handleMessage_def response_def recognised_def split: sum.splits)
  have b: "sent (handleMessage app message s) =
             [(s, error_response None (- 32601) ''Method not found'')]"
    if "property message ''id'' = None" "truthy (property message ''method'')"
       "\<not> recognised (property message ''method'')"
       "\<not> conversion_throws (the (property message ''method''))"
    using that by (auto simp: handleMessage_def dispatch_def recognised_def property_def)
  have c: "sent (handleMessage app message s) =
             [(s, error_response (property message ''id'') (- 32603) (error_message e))]"
    if "dispatch app message s = Inl e" "truthy (property message ''id'')"
    using that by (auto simp: handleMessage_def property_def)
  have d: "sent (handleMessage app message s) = []"
    if "dispatch app message s = Inl e" "property message ''id'' = None"
    using that by (auto simp: handleMessage_def)
  show ?thesis using a b c d by blast
qed

theorem notification_error_responses_witness:
  "property read_notification ''id'' = None \<and>
   recognised (property read_notification ''method'') \<and>
   dispatch sample_app read_notification 0 = Inl (Error ''File path is required'') \<and>
   sent (handleMessage sample_app read_notification 0) = [] \<and>
   property bogus_notification ''id'' = None \<and>
   truthy (property bogus_notification ''method'') \<and>
   \<not> recognised (property bogus_notification ''method'') \<and>
   \<not> conversion_throws (the (property bogus_notification ''method'')) \<and>
   sent (handleMessage sample_app bogus_notification 0) =
     [(0, error_response None (- 32601) ''Method not found'')] \<and>
   property odd_method_notification ''id'' = None \<and>
   dispatch sample_app odd_method_notification 0 = Inl conversion_error \<and>
   sent (handleMessage sample_app odd_method_notification 0) = [] \<and>
   truthy (property read_request_id7 ''id'') \<and>
   dispatch sample_app read_request_id7 0 = Inl (Error ''File path is required'') \<and>
   sent (handleMessage sample_app read_request_id7 0) =
     [(0, error_response (Some (JNum 7)) (- 32603) ''File path is required'')]"
proof -
  have a: "property read_notification ''id'' = None"
          "recognised (property read_notification ''method'')"
          "dispatch sample_app read_notification 0 = Inl (Error ''File path is required'')"
    by (simp_all add: read_notification_def property_def recognised_def dispatch_def
                      handleFileRead_def)
  have b: "property bogus_notification ''id'' = None"
          "truthy (property bogus_notification ''method'')"
          "\<not> recognised (property bogus_notification ''method'')"
          "\<not> conversion_throws (the (property bogus_notification ''method''))"
    by (simp_all add: bogus_notification_def property_def recognised_def)
  have d: "property odd_method_notification ''id'' = None"
          "dispatch sample_app odd_method_notification 0 = Inl conversion_error"
    by (simp_all add: odd_method_notification_def property_def dispatch_def)
  have c: "truthy (property read_request_id7 ''id'')"
          "dispatch sample_app read_request_id7 0 = Inl (Error ''File path is required'')"
          "property read_request_id7 ''id'' = Some (JNum 7)"
    by (simp_all add: read_request_id7_def property_def dispatch_def handleFileRead_def)
  show ?thesis
    using a b c d
      notification_error_responses [of read_notification sample_app 0
        "Error ''File path is required''"]
      notification_error_responses [of bogus_notification sample_app 0 undefined]
      notification_error_responses [of odd_method_notification sample_app 0 conversion_error]
      notification_error_responses [of read_request_id7 sample_app 0
        "Error ''File path is required''"]
    by (simp add: error_message_def)
qed

text \<open>
  C6 as the claim states it fails: a message with the method \<open>initialized\<close> and an id
  gets no response.
\<close>

theorem request_response_counterexample:
  "truthy (property initialized_request ''method'') \<and>
   property initialized_request ''id'' = Some (JNum 1) \<and>
   sent (handleMessage sample_app initialized_request 0) = []"
  by (simp add: initialized_request_def handleMessage_def dispatch_def property_def)

text \<open>
  C6, amended. For every message with a truthy method other than \<open>initialized\<close> and with
  an id, whose handler does not throw or whose id is truthy, the dispatcher calls
  \<open>sendMessage\<close> exactly once, for the originating connection, with a message that
  carries the same id. (By lemma \<open>sendMessage_one_frame\<close>, on an open socket that call
  writes one frame: the message, or, when its text is longer than \<open>MAX_MESSAGE_SIZE\<close>,
  the "Response too large" error with the same id.)
\<close>

theorem request_gets_one_response:
  assumes "truthy (property message ''method'')"
    and "property message ''method'' \<noteq> Some (JStr ''initialized'')"
    and "property message ''id'' = Some ident"
    and "(\<exists>calls. dispatch app message s = Inr calls) \<or> truthy (Some ident)"
  shows "\<exists>r. sent (handleMessage app message s) = [(s, r)] \<and> m_id r = Some ident"
proof (cases "dispatch app message s")
  case (Inl e)
  then have "truthy (Some ident)" using assms(4) by auto
  moreover have "message \<noteq> JNull" using assms(3) by (auto simp: property_def)
  ultimately show ?thesis
    using Inl assms(3) by (simp add: handleMessage_def error_response_def)
next
  case (Inr calls)
  then show ?thesis
    using dispatch_shape [of app message s] assms(1,2,3)
    by (auto simp: handleMessage_def response_def error_response_def)
qed

theorem request_gets_one_response_witness:
  "truthy (property initialize_request ''method'') \<and>
   property initialize_request ''id'' = Some (JNum 1) \<and>
   dispatch sample_app initialize_request 0 =
     Inr [(0, response (Some (JNum 1)) initialize_result)] \<and>
   (\<exists>r. sent (handleMessage sample_app initialize_request 0) = [(0, r)] \<and>
        m_id r = Some (JNum 1)) \<and>
   dispatch sample_app read_request_id7 0 = Inl (Error ''File path is required'') \<and>
   truthy (Some (JNum 7)) \<and>
   (\<exists>r. sent (handleMessage sample_app read_request_id7 0) = [(0, r)] \<and>
        m_id r = Some (JNum 7)) \<and>
   (\<exists>r. sent (handleMessage sample_app read_request_note 0) = [(0, r)] \<and>
        m_id r = Some (JStr ''r-1'')) \<and>
   dispatch sample_app odd_method_request_id7 0 = Inl conversion_error \<and>
   (\<exists>r. sent (handleMessage sample_app odd_method_request_id7 0) = [(0, r)] \<and>
        m_id r = Some (JNum 7))"
proof -
  have a: "truthy (property initialize_request ''method'')"
          "property initialize_request ''method'' \<noteq> Some (JStr ''initialized'')"
          "property initialize_request ''id'' = Some (JNum 1)"
          "dispatch sample_app initialize_request 0 =
             Inr [(0, response (Some (JNum 1)) initialize_result)]"
    by (simp_all add: initialize_request_def property_def dispatch_def)
  have b: "truthy (property read_request_id7 ''method'')"
          "property read_request_id7 ''method'' \<noteq> Some (JStr ''initialized'')"
          "property read_request_id7 ''id'' = Some (JNum 7)"
          "dispatch sample_app read_request_id7 0 = Inl (Error ''File path is required'')"
    by (simp_all add: read_request_id7_def property_def dispatch_def handleFileRead_def)
  have c: "truthy (property read_request_note ''method'')"
          "property read_request_note ''method'' \<noteq> Some (JStr ''initialized'')"
          "property read_request_note ''id'' = Some (JStr ''r-1'')"
    by (simp_all add: read_request_note_def property_def)
  have o: "truthy (property odd_method_request_id7 ''method'')"
          "property odd_method_request_id7 ''method'' \<noteq> Some (JStr ''initialized'')"
          "property odd_method_request_id7 ''id'' = Some (JNum 7)"
          "dispatch sample_app odd_method_request_id7 0 = Inl conversion_error"
    by (simp_all add: odd_method_request_id7_def property_def dispatch_def)
  have t: "truthy (Some (JNum 7))" "truthy (Some (JStr ''r-1''))" by simp_all
  show ?thesis
    using a b o t
      request_gets_one_response [OF o(1,2,3), of sample_app 0]
      request_gets_one_response [OF a(1,2,3), of sample_app 0]
      request_gets_one_response [OF b(1,2,3), of sample_app 0]
      request_gets_one_response [OF c(1,2,3), of sample_app 0]
    by simp
qed

end
